theory Spec2Isabelle
  imports Complex_Main "HOL-Library.Product_Lexorder" "HOL-Library.Multiset"
begin

section \<open>Exceptions of the Python runtime, as values\<close>

text \<open>
  Every exception the three scripts can raise is a constructor; a function that may raise
  returns \<open>error + 'a\<close> with \<open>Inl\<close> for the exception.
\<close>

datatype error =
    IndexError          \<comment> \<open>list index out of range, \<open>random.choice\<close> of an empty sequence\<close>
  | ValueError          \<comment> \<open>empty range for \<open>randint\<close>, sample larger than population, bad \<open>int()\<close>/\<open>float()\<close> literal\<close>
  | KeyError            \<comment> \<open>a CSV row without the requested column\<close>
  | InvalidOperation    \<comment> \<open>\<open>Decimal(text)\<close> on malformed text\<close>
  | FileNotFoundError   \<comment> \<open>\<open>path.open()\<close> on a missing file\<close>
  | IntegrityError      \<comment> \<open>sqlite3: primary key or foreign key violated\<close>
  | SystemExit string   \<comment> \<open>\<open>raise SystemExit(message)\<close>\<close>

section \<open>Text helpers: \<open>str(int)\<close>, \<open>str.join\<close>, \<open>str.ljust\<close>\<close>

definition digit_char :: "nat \<Rightarrow> char" where
  "digit_char d = char_of (48 + d)"

fun show_nat :: "nat \<Rightarrow> string" where
  "show_nat n = (if n < 10 then [digit_char n] else show_nat (n div 10) @ [digit_char (n mod 10)])"

declare show_nat.simps [simp del]

definition show_int :: "int \<Rightarrow> string" where
  "show_int i = (if i < 0 then CHR ''-'' # show_nat (nat (- i)) else show_nat (nat i))"

fun join :: "string \<Rightarrow> string list \<Rightarrow> string" where
  "join sep [] = []"
| "join sep [x] = x"
| "join sep (x # y # ys) = x @ sep @ join sep (y # ys)"

definition ljust :: "string \<Rightarrow> nat \<Rightarrow> string" where
  "ljust s w = s @ replicate (w - length s) CHR '' ''"

definition lower_char :: "char \<Rightarrow> char" where
  "lower_char c =
     (if 65 \<le> (of_char c :: nat) \<and> (of_char c :: nat) \<le> 90 then char_of ((of_char c :: nat) + 32) else c)"

definition lower :: "string \<Rightarrow> string" where
  "lower s = map lower_char s"

text \<open>Sequencing of steps that may raise: the first exception ends the computation.\<close>

definition ebind :: "error + 'a \<Rightarrow> ('a \<Rightarrow> error + 'b) \<Rightarrow> error + 'b" where
  "ebind m f = (case m of Inl e \<Rightarrow> Inl e | Inr x \<Rightarrow> f x)"

section \<open>generate\_data.py\<close>

subsection \<open>The records\<close>

text \<open>
  The five dataclasses. A field name that two dataclasses share is prefixed in all but
  one of them (\<open>o_user_id\<close>, \<open>oi_order_id\<close>, \<open>oi_product_id\<close>, \<open>pay_order_id\<close>, \<open>pay_method\<close>,
  \<open>p_name\<close>). Money fields are the decimal strings the source stores.

  A date or timestamp field holds the text that \<open>strftime\<close> writes. The proleptic Gregorian
  rendering of that text is not expanded: \<open>Date_Text d\<close> stands for the ten characters
  \<open>YYYY-MM-DD\<close> of day \<open>d\<close> counted from 1970-01-01, \<open>Datetime_Text s\<close> for the nineteen
  characters \<open>YYYY-MM-DD HH:MM:SS\<close> of second \<open>s\<close> counted from 1970-01-01 00:00:00. What
  the source drops by formatting (the time of day, the microseconds) is dropped here too.
\<close>

datatype date_text = Date_Text int
datatype datetime_text = Datetime_Text int

record User =
  user_id :: int
  name :: string
  email :: string
  phone :: string
  created_at :: date_text

record Product =
  product_id :: int
  p_name :: string
  category :: string
  price :: string
  stock :: int

record Order =
  order_id :: int
  o_user_id :: int
  order_date :: date_text
  total_amount :: string

record OrderItem =
  order_item_id :: int
  oi_order_id :: int
  oi_product_id :: int
  quantity :: int
  unit_price :: string

record Payment =
  payment_id :: int
  pay_order_id :: int
  amount :: string
  pay_method :: string
  status :: string
  paid_at :: datetime_text

subsection \<open>Decimal and money\<close>

text \<open>
  A \<open>Decimal\<close> (and the float handed to \<open>money\<close>, which \<open>Decimal(value)\<close> converts
  exactly) is its exact rational value. The decimal context rounds the results of \<open>*\<close> and
  \<open>+\<close> to 28 significant digits; no amount of a generated dataset has more than 7
  (\<open>generated_amounts_bounded\<close> below), so the arithmetic is exact here. The sign of a zero is
  not tracked.

  \<open>money\<close>: \<open>quantize(Decimal("0.01"), rounding=ROUND_HALF_UP)\<close> rounds the magnitude to
  hundredths, a half away from zero, and \<open>str\<close> writes the sign, the integer digits, a
  point and two digits.
\<close>

definition quantize_cents :: "rat \<Rightarrow> nat" where
  "quantize_cents v = nat \<lfloor>\<bar>v\<bar> * 100 + 1 / 2\<rfloor>"

definition money :: "rat \<Rightarrow> string" where
  "money v =
     (let c = quantize_cents v in
      (if v < 0 then ''-'' else '''') @ show_nat (c div 100) @ ''.''
        @ [digit_char (c div 10 mod 10), digit_char (c mod 10)])"

definition is_digit :: "char \<Rightarrow> bool" where
  "is_digit c = (48 \<le> (of_char c :: nat) \<and> (of_char c :: nat) \<le> 57)"

definition digit_val :: "char \<Rightarrow> nat" where
  "digit_val c = of_char c - 48"

definition parse_nat :: "string \<Rightarrow> nat" where
  "parse_nat s = foldl (\<lambda>a c. 10 * a + digit_val c) 0 s"

text \<open>
  \<open>Decimal(text)\<close> on the plain literals \<open>[-]digits[.digits]\<close>, which are all that
  \<open>money\<close> writes; any other text is InvalidOperation here.
\<close>

definition Decimal :: "string \<Rightarrow> error + rat" where
  "Decimal s =
     (let neg = (s \<noteq> [] \<and> hd s = CHR ''-'');
          body = (if neg then tl s else s);
          ip = takeWhile is_digit body;
          rest = dropWhile is_digit body;
          sgn = (if neg then - 1 else 1 :: rat)
      in if ip = [] then Inl InvalidOperation
         else if rest = [] then Inr (sgn * of_nat (parse_nat ip))
         else if hd rest = CHR ''.'' \<and> tl rest \<noteq> [] \<and> list_all is_digit (tl rest)
           then Inr (sgn * (of_nat (parse_nat (ip @ tl rest)) / 10 ^ length (tl rest)))
         else Inl InvalidOperation)"

subsection \<open>The module-level random generator\<close>

text \<open>
  \<open>random\<close> is the process-wide generator seeded once at import. Its state is threaded through
  every call. The generator is an arbitrary source of raw draws read in order (\<open>Rng f i\<close>
  reads \<open>f i\<close> next), so a statement for all \<open>f\<close> holds for every seed and every generator
  algorithm. The library functions follow CPython's \<open>random.py\<close>: \<open>randbelow n\<close> yields a
  number below \<open>n\<close>; \<open>random()\<close> is 53 random bits over \<open>2^53\<close>; \<open>uniform a b\<close> is
  \<open>a + (b - a) * random()\<close>, here without the float rounding of the last step.
\<close>

datatype rng = Rng "nat \<Rightarrow> nat" nat

fun next_raw :: "rng \<Rightarrow> nat \<times> rng" where
  "next_raw (Rng f i) = (f i, Rng f (Suc i))"

definition randbelow :: "nat \<Rightarrow> rng \<Rightarrow> nat \<times> rng" where
  "randbelow n g = (case next_raw g of (r, g') \<Rightarrow> (r mod n, g'))"

definition random :: "rng \<Rightarrow> rat \<times> rng" where
  "random g = (case next_raw g of (r, g') \<Rightarrow> (of_nat (r mod 2 ^ 53) / 2 ^ 53, g'))"

definition uniform :: "rat \<Rightarrow> rat \<Rightarrow> rng \<Rightarrow> rat \<times> rng" where
  "uniform a b g = (case random g of (u, g') \<Rightarrow> (a + (b - a) * u, g'))"

definition randint :: "int \<Rightarrow> int \<Rightarrow> rng \<Rightarrow> error + int \<times> rng" where
  "randint a b g =
     (if b < a then Inl ValueError
      else case randbelow (nat (b - a + 1)) g of (r, g') \<Rightarrow> Inr (a + int r, g'))"

definition choice :: "'a list \<Rightarrow> rng \<Rightarrow> error + 'a \<times> rng" where
  "choice seq g =
     (if seq = [] then Inl IndexError
      else case randbelow (length seq) g of (i, g') \<Rightarrow> Inr (seq ! i, g'))"

text \<open>
  \<open>random.sample\<close>: the pool algorithm (CPython's branch for populations of at most 21
  elements): draw a position of the pool, take its element, move the pool's last element
  into that position and shorten the pool. For a larger population CPython draws positions
  of the population and draws again on a repetition; the result is of the same kind, \<open>k\<close>
  elements taken at pairwise distinct positions.
\<close>

fun sample_pool :: "'a list \<Rightarrow> nat \<Rightarrow> rng \<Rightarrow> 'a list \<times> rng" where
  "sample_pool pool 0 g = ([], g)"
| "sample_pool pool (Suc k) g =
     (case randbelow (length pool) g of (j, g1) \<Rightarrow>
        (case sample_pool (butlast (pool[j := last pool])) k g1 of (rest, g2) \<Rightarrow>
           (pool ! j # rest, g2)))"

definition sample :: "'a list \<Rightarrow> int \<Rightarrow> rng \<Rightarrow> error + 'a list \<times> rng" where
  "sample population k g =
     (if 0 \<le> k \<and> k \<le> int (length population)
      then Inr (sample_pool population (nat k) g)
      else Inl ValueError)"

text \<open>
  \<open>random.choices(population, weights)[0]\<close>: the first position whose cumulative weight
  exceeds \<open>random() * total\<close>, searched among all positions but the last.
\<close>

fun accumulate :: "rat \<Rightarrow> rat list \<Rightarrow> rat list" where
  "accumulate acc [] = []"
| "accumulate acc (w # ws) = (acc + w) # accumulate (acc + w) ws"

definition choices :: "'a list \<Rightarrow> rat list \<Rightarrow> rng \<Rightarrow> error + 'a \<times> rng" where
  "choices population weights g =
     (let cum_weights = accumulate 0 weights in
      if length cum_weights \<noteq> length population then Inl ValueError
      else if population = [] then Inl IndexError
      else if last cum_weights \<le> 0 then Inl ValueError
      else case random g of (u, g') \<Rightarrow>
        Inr (population ! length (takeWhile (\<lambda>c. c \<le> u * last cum_weights) (butlast cum_weights)), g'))"

subsection \<open>Dates\<close>

text \<open>
  A naive \<open>datetime\<close> is its number of microseconds since 1970-01-01 00:00:00, a
  \<open>timedelta\<close> a number of microseconds.
\<close>

type_synonym datetime = int

definition days :: "int \<Rightarrow> int" where
  "days n = n * 86400000000"

definition hours :: "int \<Rightarrow> int" where
  "hours n = n * 3600000000"

definition seconds :: "int \<Rightarrow> int" where
  "seconds n = n * 1000000"

definition whole_seconds :: "int \<Rightarrow> int" where
  \<comment> \<open>\<open>int(delta.total_seconds())\<close>: truncation towards zero\<close>
  "whole_seconds delta = (if 0 \<le> delta then delta div 1000000 else - ((- delta) div 1000000))"

definition strftime_date :: "datetime \<Rightarrow> date_text" where
  \<comment> \<open>\<open>strftime("%Y-%m-%d")\<close>\<close>
  "strftime_date t = Date_Text (t div 86400000000)"

definition strftime_datetime :: "datetime \<Rightarrow> datetime_text" where
  \<comment> \<open>\<open>strftime("%Y-%m-%d %H:%M:%S")\<close>\<close>
  "strftime_datetime t = Datetime_Text (t div 1000000)"

definition random_date :: "datetime \<Rightarrow> datetime \<Rightarrow> rng \<Rightarrow> error + datetime \<times> rng" where
  "random_date start end g =
     ebind (randint 0 (whole_seconds (end - start)) g) (\<lambda>(r, g'). Inr (start + seconds r, g'))"

subsection \<open>Users and products\<close>

definition first_names :: "string list" where
  "first_names = [''Ava'', ''Liam'', ''Noah'', ''Olivia'', ''Ethan'', ''Sophia'', ''Mason'',
     ''Emma'', ''Isabella'', ''Lucas'', ''Mia'', ''Elijah'']"

definition last_names :: "string list" where
  "last_names = [''Thompson'', ''Rodriguez'', ''Patel'', ''Chen'', ''Walker'', ''Nguyen'',
     ''Johnson'', ''Garcia'', ''Wright'', ''Kim'', ''Davis'', ''Bennett'']"

fun users_loop :: "datetime \<Rightarrow> int list \<Rightarrow> rng \<Rightarrow> error + User list \<times> rng" where
  "users_loop today [] g = Inr ([], g)"
| "users_loop today (uid # uids) g =
     ebind (choice first_names g) (\<lambda>(first, g1).
     ebind (choice last_names g1) (\<lambda>(last, g2).
     ebind (randint 200 999 g2) (\<lambda>(ph1, g3).
     ebind (randint 1000 9999 g3) (\<lambda>(ph2, g4).
     ebind (random_date (today - days 365) (today - days 10) g4) (\<lambda>(created, g5).
     ebind (users_loop today uids g5) (\<lambda>(users, g6).
       Inr (\<lparr>user_id = uid,
             name = first @ '' '' @ last,
             email = lower (first @ ''.'' @ last @ show_int uid @ ''@example.com''),
             phone = ''555-'' @ show_int ph1 @ ''-'' @ show_int ph2,
             created_at = strftime_date created\<rparr> # users, g6)))))))"

definition generate_users :: "int \<Rightarrow> datetime \<Rightarrow> rng \<Rightarrow> error + User list \<times> rng" where
  \<comment> \<open>\<open>today\<close> is what \<open>datetime.utcnow()\<close> returns in this call\<close>
  "generate_users cnt today g = users_loop today [1..cnt] g"

definition adjectives :: "string list" where
  "adjectives = [''Aurora'', ''Summit'', ''TrailRunner'', ''Cypress'', ''Horizon'', ''Breeze'',
     ''Cascade'', ''Drift'']"

definition nouns :: "string list" where
  "nouns = [''Laptop'', ''Headphones'', ''Smartwatch'', ''Coffee Grinder'', ''Standing Desk'',
     ''Air Purifier'', ''Water Bottle'', ''Wireless Mouse'']"

definition categories :: "string list" where
  "categories = [''Electronics'', ''Wearables'', ''Kitchen'', ''Furniture'', ''Home'',
     ''Outdoors'', ''Accessories'']"

fun products_loop :: "int list \<Rightarrow> rng \<Rightarrow> error + Product list \<times> rng" where
  "products_loop [] g = Inr ([], g)"
| "products_loop (pid # pids) g =
     ebind (choice adjectives g) (\<lambda>(adjective, g1).
     ebind (choice nouns g1) (\<lambda>(noun, g2).
     ebind (choice categories g2) (\<lambda>(cat, g3).
       case uniform 20 1200 g3 of (base_price, g4) \<Rightarrow>
     ebind (randint 20 400 g4) (\<lambda>(stk, g5).
     ebind (products_loop pids g5) (\<lambda>(products, g6).
       Inr (\<lparr>product_id = pid,
             p_name = adjective @ '' '' @ noun,
             category = cat,
             price = money base_price,
             stock = stk\<rparr> # products, g6))))))"

definition generate_products :: "int \<Rightarrow> rng \<Rightarrow> error + Product list \<times> rng" where
  "generate_products cnt g = products_loop [1..cnt] g"

subsection \<open>Orders, order items and payments\<close>

text \<open>The inner loop \<open>for product in product_choices\<close>, threading the running total and the item counter.\<close>

fun items_loop ::
  "int \<Rightarrow> Product list \<Rightarrow> rat \<Rightarrow> int \<Rightarrow> rng \<Rightarrow> error + OrderItem list \<times> rat \<times> int \<times> rng" where
  "items_loop oid [] line_total next_item_id g = Inr ([], line_total, next_item_id, g)"
| "items_loop oid (product # rest) line_total next_item_id g =
     ebind (randint 1 3 g) (\<lambda>(qty, g1).
     ebind (Decimal (price product)) (\<lambda>price_dec.
     ebind (items_loop oid rest (line_total + price_dec * of_int qty) (next_item_id + 1) g1)
       (\<lambda>(items, line_total', next_item_id', g2).
          Inr (\<lparr>order_item_id = next_item_id,
                oi_order_id = oid,
                oi_product_id = product_id product,
                quantity = qty,
                unit_price = money price_dec\<rparr> # items, line_total', next_item_id', g2))))"

text \<open>The outer loop \<open>for oid in range(1, order_count + 1)\<close>, threading both counters.\<close>

fun orders_loop ::
  "datetime \<Rightarrow> User list \<Rightarrow> Product list \<Rightarrow> int list \<Rightarrow> int \<Rightarrow> int \<Rightarrow> rng
     \<Rightarrow> error + Order list \<times> OrderItem list \<times> Payment list" where
  "orders_loop today users products [] next_item_id next_payment_id g = Inr ([], [], [])"
| "orders_loop today users products (oid # oids) next_item_id next_payment_id g =
     ebind (choice users g) (\<lambda>(user, g1).
     ebind (random_date (today - days 120) (today - days 1) g1) (\<lambda>(order_dt, g2).
     ebind (randint 1 (min 4 (int (length products))) g2) (\<lambda>(k, g3).
     ebind (sample products k g3) (\<lambda>(product_choices, g4).
     ebind (items_loop oid product_choices 0 next_item_id g4)
       (\<lambda>(new_items, line_total, next_item_id', g5).
     ebind (choices [''Completed'', ''Pending'', ''Failed''] [82 / 100, 12 / 100, 6 / 100] g5)
       (\<lambda>(stat, g6).
     ebind (choice [''Credit Card'', ''Debit Card'', ''PayPal'', ''Apple Pay''] g6)
       (\<lambda>(payment_method, g7).
     ebind (randint 1 48 g7) (\<lambda>(h, g8).
     ebind (orders_loop today users products oids next_item_id' (next_payment_id + 1) g8)
       (\<lambda>(orders, items, payments).
          Inr (\<lparr>order_id = oid,
                o_user_id = user_id user,
                order_date = strftime_date order_dt,
                total_amount = money line_total\<rparr> # orders,
               new_items @ items,
               \<lparr>payment_id = next_payment_id,
                pay_order_id = oid,
                amount = money line_total,
                pay_method = payment_method,
                status = stat,
                paid_at = strftime_datetime (order_dt + hours h)\<rparr> # payments))))))))))"

definition generate_orders ::
  "User list \<Rightarrow> Product list \<Rightarrow> int \<Rightarrow> datetime \<Rightarrow> rng
     \<Rightarrow> error + Order list \<times> OrderItem list \<times> Payment list" where
  \<comment> \<open>\<open>today\<close> is what \<open>datetime.utcnow()\<close> returns in this call\<close>
  "generate_orders users products order_count today g =
     orders_loop today users products [1..order_count] 1 1 g"

subsection \<open>\<open>main\<close>: generate, then write\<close>

text \<open>
  The output directory holds one file per entity kind. A file is the list of records that
  \<open>write_csv\<close> (or \<open>write_json\<close>) serialises, in order; the text encoding is not expanded.
\<close>

datatype file_content =
    Users_File "User list"
  | Products_File "Product list"
  | Orders_File "Order list"
  | Order_Items_File "OrderItem list"
  | Payments_File "Payment list"

record output_dir =
  dir_exists :: bool
  files :: "string \<rightharpoonup> file_content"

definition write_file :: "string \<Rightarrow> file_content \<Rightarrow> output_dir \<Rightarrow> output_dir" where
  "write_file path rows d = d\<lparr>files := (files d)(path \<mapsto> rows)\<rparr>"

record args =
  users_arg :: int
  products_arg :: int
  orders_arg :: int
  json_arg :: bool

text \<open>
  The three generators in the order \<open>main\<close> calls them, sharing the random state.
  \<open>now1\<close> and \<open>now2\<close> are the two readings of \<open>datetime.utcnow()\<close>. \<open>main\<close> creates
  the directory, generates, and only then writes; its result is the exception or the line
  it prints (without the directory's path), and the directory afterwards.
\<close>

definition generate ::
  "args \<Rightarrow> datetime \<Rightarrow> datetime \<Rightarrow> rng
     \<Rightarrow> error + User list \<times> Product list \<times> Order list \<times> OrderItem list \<times> Payment list" where
  "generate a now1 now2 g =
     ebind (generate_users (users_arg a) now1 g) (\<lambda>(users, g1).
     ebind (generate_products (products_arg a) g1) (\<lambda>(products, g2).
     ebind (generate_orders users products (orders_arg a) now2 g2) (\<lambda>(orders, order_items, payments).
       Inr (users, products, orders, order_items, payments))))"

definition generate_data_main ::
  "args \<Rightarrow> datetime \<Rightarrow> datetime \<Rightarrow> rng \<Rightarrow> output_dir \<Rightarrow> (error + string) \<times> output_dir" where
  "generate_data_main a now1 now2 g d =
     (let d1 = d\<lparr>dir_exists := True\<rparr> in
      case generate a now1 now2 g of
        Inl e \<Rightarrow> (Inl e, d1)
      | Inr (users, products, orders, order_items, payments) \<Rightarrow>
          (let d2 = write_file ''users.csv'' (Users_File users) d1;
               d3 = write_file ''products.csv'' (Products_File products) d2;
               d4 = write_file ''orders.csv'' (Orders_File orders) d3;
               d5 = write_file ''order_items.csv'' (Order_Items_File order_items) d4;
               d6 = write_file ''payments.csv'' (Payments_File payments) d5;
               d7 = (if json_arg a
                     then write_file ''payments.json'' (Payments_File payments)
                         (write_file ''order_items.json'' (Order_Items_File order_items)
                         (write_file ''orders.json'' (Orders_File orders)
                         (write_file ''products.json'' (Products_File products)
                         (write_file ''users.json'' (Users_File users) d6))))
                     else d6)
           in (Inr ''Data written'', d7)))"

subsection \<open>The words of the specification\<close>

text \<open>\<open>round(x, 2)\<close> with the round-half-up policy of \<open>money\<close>, as a number.\<close>

definition round2 :: "rat \<Rightarrow> rat" where
  "round2 x = (if x < 0 then - 1 else 1) * (of_nat (quantize_cents x) / 100)"

text \<open>The order items and the payments that share an order's \<open>order_id\<close>.\<close>

definition items_of :: "Order \<Rightarrow> OrderItem list \<Rightarrow> OrderItem list" where
  "items_of ord items = filter (\<lambda>it. oi_order_id it = order_id ord) items"

definition payments_of :: "Order \<Rightarrow> Payment list \<Rightarrow> Payment list" where
  "payments_of ord payments = filter (\<lambda>p. pay_order_id p = order_id ord) payments"

text \<open>
  \<open>sum(round(item.unit_price * item.quantity, 2) for item in items)\<close>, reading each
  \<open>unit_price\<close> text as a decimal.
\<close>

fun sum_rounded :: "OrderItem list \<Rightarrow> error + rat" where
  "sum_rounded [] = Inr 0"
| "sum_rounded (it # its) =
     ebind (Decimal (unit_price it)) (\<lambda>u.
     ebind (sum_rounded its) (\<lambda>s. Inr (round2 (u * of_int (quantity it)) + s)))"

text \<open>
  The seconds from the start of the day recorded as \<open>order_date\<close> to the second recorded as
  \<open>paid_at\<close>.
\<close>

fun seconds_between :: "date_text \<Rightarrow> datetime_text \<Rightarrow> int" where
  "seconds_between (Date_Text d) (Datetime_Text s) = s - 86400 * d"

text \<open>
  The scripts of this repository report a bad configuration or a missing input with
  \<open>raise SystemExit(message)\<close>.
\<close>

fun configuration_error :: "error \<Rightarrow> bool" where
  "configuration_error (SystemExit msg) = True"
| "configuration_error e = False"

subsection \<open>What the loops establish for one order\<close>

text \<open>
  About the items appended for an order of a catalogue of \<open>n\<close> products, and about the
  payment appended for it.
\<close>

definition order_items_ok :: "nat \<Rightarrow> Order \<Rightarrow> OrderItem list \<Rightarrow> bool" where
  "order_items_ok n ord its =
     (list_all (\<lambda>it. oi_order_id it = order_id ord) its
      \<and> 1 \<le> length its \<and> length its \<le> min 4 n
      \<and> distinct (map oi_product_id its)
      \<and> (case sum_rounded its of
            Inl e \<Rightarrow> False
          | Inr s \<Rightarrow> round2 s = s \<and> 0 \<le> s \<and> s \<le> 14400 \<and> total_amount ord = money s))"

definition order_payment_ok :: "Order \<Rightarrow> Payment \<Rightarrow> bool" where
  "order_payment_ok ord p =
     (pay_order_id p = order_id ord \<and> amount p = total_amount ord
      \<and> 3600 \<le> seconds_between (order_date ord) (paid_at p)
      \<and> seconds_between (order_date ord) (paid_at p) < 259200)"

subsection \<open>Fixed inputs for concrete runs\<close>

text \<open>
  A generator that delivers the listed raw draws in order, then zeros; \<open>draws_at ds i\<close> is
  its state after \<open>i\<close> draws.
\<close>

definition draws_at :: "nat list \<Rightarrow> nat \<Rightarrow> rng" where
  "draws_at ds i = Rng (\<lambda>j. if j < length ds then ds ! j else 0) i"

definition draws_from :: "nat list \<Rightarrow> rng" where
  "draws_from ds = draws_at ds 0"

text \<open>
  One user, two products, two orders, with the clock at 2024-10-04 00:00:00 (day 20000).
  The first order is placed at 23:00:00 of day 19880 (2024-06-06) with two items and paid
  48 hours later; the second at 00:00:00 of the same day with one item and paid one hour
  later.
\<close>

definition example_args :: args where
  "example_args = \<lparr>users_arg = 1, products_arg = 2, orders_arg = 2, json_arg = False\<rparr>"

definition example_draws :: "nat list" where
  "example_draws =
     [0, 3, 12, 345, 8640000,
      1, 0, 0, 4503599627370496, 5,
      5, 6, 5, 1125899906842624, 100,
      0, 82800, 1, 1, 0, 2, 0, 7881299347898368, 2, 47,
      0, 0, 0, 0, 1, 0, 0, 0]"

definition example_users :: "User list" where
  "example_users =
     [\<lparr>user_id = 1, name = ''Ava Chen'', email = ''ava.chen1@example.com'',
       phone = ''555-212-1345'', created_at = Date_Text 19735\<rparr>]"

definition example_products :: "Product list" where
  "example_products =
     [\<lparr>product_id = 1, p_name = ''Summit Laptop'', category = ''Electronics'',
       price = ''610.00'', stock = 25\<rparr>,
      \<lparr>product_id = 2, p_name = ''Breeze Water Bottle'', category = ''Outdoors'',
       price = ''167.50'', stock = 120\<rparr>]"

definition example_orders :: "Order list" where
  "example_orders =
     [\<lparr>order_id = 1, o_user_id = 1, order_date = Date_Text 19880, total_amount = ''1112.50''\<rparr>,
      \<lparr>order_id = 2, o_user_id = 1, order_date = Date_Text 19880, total_amount = ''1220.00''\<rparr>]"

definition example_items :: "OrderItem list" where
  "example_items =
     [\<lparr>order_item_id = 1, oi_order_id = 1, oi_product_id = 2, quantity = 3, unit_price = ''167.50''\<rparr>,
      \<lparr>order_item_id = 2, oi_order_id = 1, oi_product_id = 1, quantity = 1, unit_price = ''610.00''\<rparr>,
      \<lparr>order_item_id = 3, oi_order_id = 2, oi_product_id = 1, quantity = 2, unit_price = ''610.00''\<rparr>]"

definition example_payments :: "Payment list" where
  "example_payments =
     [\<lparr>payment_id = 1, pay_order_id = 1, amount = ''1112.50'', pay_method = ''PayPal'',
       status = ''Pending'', paid_at = Datetime_Text 1717887600\<rparr>,
      \<lparr>payment_id = 2, pay_order_id = 2, amount = ''1220.00'', pay_method = ''Credit Card'',
       status = ''Completed'', paid_at = Datetime_Text 1717635600\<rparr>]"

text \<open>One user, one product, one order, every raw draw zero.\<close>

definition single_args :: args where
  "single_args = \<lparr>users_arg = 1, products_arg = 1, orders_arg = 1, json_arg = False\<rparr>"

definition single_users :: "User list" where
  "single_users =
     [\<lparr>user_id = 1, name = ''Ava Thompson'', email = ''ava.thompson1@example.com'',
       phone = ''555-200-1000'', created_at = Date_Text 19635\<rparr>]"

definition single_products :: "Product list" where
  "single_products =
     [\<lparr>product_id = 1, p_name = ''Aurora Laptop'', category = ''Electronics'',
       price = ''20.00'', stock = 20\<rparr>]"

definition single_orders :: "Order list" where
  "single_orders =
     [\<lparr>order_id = 1, o_user_id = 1, order_date = Date_Text 19880, total_amount = ''20.00''\<rparr>]"

definition single_items :: "OrderItem list" where
  "single_items =
     [\<lparr>order_item_id = 1, oi_order_id = 1, oi_product_id = 1, quantity = 1, unit_price = ''20.00''\<rparr>]"

definition single_payments :: "Payment list" where
  "single_payments =
     [\<lparr>payment_id = 1, pay_order_id = 1, amount = ''20.00'', pay_method = ''Credit Card'',
       status = ''Completed'', paid_at = Datetime_Text 1717635600\<rparr>]"

text \<open>An output directory that does not exist yet.\<close>

definition no_output :: output_dir where
  "no_output = \<lparr>dir_exists = False, files = Map.empty\<rparr>"

section \<open>ingest\_to\_sqlite.py\<close>

text \<open>
  The store: five tables of rows, each row the tuple the loader inserts. The columns declared
  \<open>REAL\<close> hold binary floating-point numbers; their type is the parameter \<open>'r\<close>, and
  \<open>float()\<close> is handed to the loader as \<open>to_float\<close>.
\<close>

record 'r db =
  users_t :: "(int \<times> string \<times> string \<times> string \<times> string) list"
  products_t :: "(int \<times> string \<times> string \<times> 'r \<times> int) list"
  orders_t :: "(int \<times> int \<times> string \<times> 'r) list"
  order_items_t :: "(int \<times> int \<times> int \<times> int \<times> 'r) list"
  payments_t :: "(int \<times> int \<times> 'r \<times> string \<times> string \<times> string) list"

definition empty_db :: "'r db" where
  "empty_db = \<lparr>users_t = [], products_t = [], orders_t = [], order_items_t = [], payments_t = []\<rparr>"

text \<open>
  A connection: \<open>on_disk\<close> is the last committed state, which is what survives when the
  process ends on an uncaught exception; \<open>working\<close> is the state the open transaction sees.
\<close>

record 'r conn =
  on_disk :: "'r db"
  working :: "'r db"

definition commit :: "'r conn \<Rightarrow> 'r conn" where
  "commit c = c\<lparr>on_disk := working c\<rparr>"

definition ensure_tables :: "'r conn \<Rightarrow> 'r conn" where
  \<comment> \<open>\<open>CREATE TABLE IF NOT EXISTS\<close> leaves the rows of an existing table alone\<close>
  "ensure_tables c = commit c"

definition clear_tables :: "'r conn \<Rightarrow> 'r conn" where
  "clear_tables c =
     commit (c\<lparr>working := (working c)\<lparr>payments_t := [], order_items_t := [], orders_t := [],
                                         products_t := [], users_t := []\<rparr>\<rparr>)"

subsection \<open>Reading the exported files\<close>

text \<open>
  A file as \<open>csv.DictReader\<close> delivers it: one dictionary per line. \<open>int()\<close> is modelled on
  an optional sign followed by digits.
\<close>

type_synonym csv_row = "string \<rightharpoonup> string"

definition field :: "csv_row \<Rightarrow> string \<Rightarrow> error + string" where
  "field row k = (case row k of None \<Rightarrow> Inl KeyError | Some v \<Rightarrow> Inr v)"

definition py_int :: "string \<Rightarrow> error + int" where
  "py_int s =
     (let neg = (s \<noteq> [] \<and> hd s = CHR ''-'');
          body = (if s \<noteq> [] \<and> (hd s = CHR ''-'' \<or> hd s = CHR ''+'') then tl s else s)
      in if body \<noteq> [] \<and> list_all is_digit body
         then Inr ((if neg then - 1 else 1) * int (parse_nat body))
         else Inl ValueError)"

definition py_float :: "(string \<Rightarrow> 'r option) \<Rightarrow> string \<Rightarrow> error + 'r" where
  "py_float to_float s = (case to_float s of None \<Rightarrow> Inl ValueError | Some x \<Rightarrow> Inr x)"

text \<open>
  Each \<open>load_*\<close> is a generator: opening the file happens when the first row is asked for,
  and each row is converted when it is asked for. The result is the exception of \<open>open\<close>, or
  the rows, each converted or raising.
\<close>

definition open_file :: "(string \<rightharpoonup> csv_row list) \<Rightarrow> string \<Rightarrow> error + csv_row list" where
  "open_file dir path = (case dir path of None \<Rightarrow> Inl FileNotFoundError | Some rows \<Rightarrow> Inr rows)"

definition load_users ::
  "(string \<rightharpoonup> csv_row list) \<Rightarrow> string \<Rightarrow> error + (error + int \<times> string \<times> string \<times> string \<times> string) list" where
  "load_users dir path =
     ebind (open_file dir path) (\<lambda>rows. Inr (map (\<lambda>row.
       ebind (ebind (field row ''user_id'') py_int) (\<lambda>uid.
       ebind (field row ''name'') (\<lambda>nm.
       ebind (field row ''email'') (\<lambda>em.
       ebind (field row ''phone'') (\<lambda>ph.
       ebind (field row ''created_at'') (\<lambda>cr.
         Inr (uid, nm, em, ph, cr))))))) rows))"

definition load_products ::
  "(string \<Rightarrow> 'r option) \<Rightarrow> (string \<rightharpoonup> csv_row list) \<Rightarrow> string
     \<Rightarrow> error + (error + int \<times> string \<times> string \<times> 'r \<times> int) list" where
  "load_products to_float dir path =
     ebind (open_file dir path) (\<lambda>rows. Inr (map (\<lambda>row.
       ebind (ebind (field row ''product_id'') py_int) (\<lambda>pid.
       ebind (field row ''name'') (\<lambda>nm.
       ebind (field row ''category'') (\<lambda>cat.
       ebind (ebind (field row ''price'') (py_float to_float)) (\<lambda>pr.
       ebind (ebind (field row ''stock'') py_int) (\<lambda>st.
         Inr (pid, nm, cat, pr, st))))))) rows))"

definition load_orders ::
  "(string \<Rightarrow> 'r option) \<Rightarrow> (string \<rightharpoonup> csv_row list) \<Rightarrow> string
     \<Rightarrow> error + (error + int \<times> int \<times> string \<times> 'r) list" where
  "load_orders to_float dir path =
     ebind (open_file dir path) (\<lambda>rows. Inr (map (\<lambda>row.
       ebind (ebind (field row ''order_id'') py_int) (\<lambda>oid.
       ebind (ebind (field row ''user_id'') py_int) (\<lambda>uid.
       ebind (field row ''order_date'') (\<lambda>od.
       ebind (ebind (field row ''total_amount'') (py_float to_float)) (\<lambda>tot.
         Inr (oid, uid, od, tot)))))) rows))"

definition load_order_items ::
  "(string \<Rightarrow> 'r option) \<Rightarrow> (string \<rightharpoonup> csv_row list) \<Rightarrow> string
     \<Rightarrow> error + (error + int \<times> int \<times> int \<times> int \<times> 'r) list" where
  "load_order_items to_float dir path =
     ebind (open_file dir path) (\<lambda>rows. Inr (map (\<lambda>row.
       ebind (ebind (field row ''order_item_id'') py_int) (\<lambda>iid.
       ebind (ebind (field row ''order_id'') py_int) (\<lambda>oid.
       ebind (ebind (field row ''product_id'') py_int) (\<lambda>pid.
       ebind (ebind (field row ''quantity'') py_int) (\<lambda>qty.
       ebind (ebind (field row ''unit_price'') (py_float to_float)) (\<lambda>up.
         Inr (iid, oid, pid, qty, up))))))) rows))"

definition load_payments ::
  "(string \<Rightarrow> 'r option) \<Rightarrow> (string \<rightharpoonup> csv_row list) \<Rightarrow> string
     \<Rightarrow> error + (error + int \<times> int \<times> 'r \<times> string \<times> string \<times> string) list" where
  "load_payments to_float dir path =
     ebind (open_file dir path) (\<lambda>rows. Inr (map (\<lambda>row.
       ebind (ebind (field row ''payment_id'') py_int) (\<lambda>pid.
       ebind (ebind (field row ''order_id'') py_int) (\<lambda>oid.
       ebind (ebind (field row ''amount'') (py_float to_float)) (\<lambda>am.
       ebind (field row ''method'') (\<lambda>me.
       ebind (field row ''status'') (\<lambda>st.
       ebind (field row ''paid_at'') (\<lambda>pa.
         Inr (pid, oid, am, me, st, pa)))))))) rows))"

subsection \<open>Inserting\<close>

text \<open>
  One \<open>INSERT\<close> per table, with the constraints of the schema that an insert can violate:
  the primary key is unique, and with \<open>PRAGMA foreign_keys = ON\<close> every reference must
  resolve at the time of the insert.
\<close>

definition insert_user :: "int \<times> string \<times> string \<times> string \<times> string \<Rightarrow> 'r db \<Rightarrow> error + 'r db" where
  "insert_user row s =
     (if fst row \<in> set (map fst (users_t s)) then Inl IntegrityError
      else Inr (s\<lparr>users_t := users_t s @ [row]\<rparr>))"

definition insert_product :: "int \<times> string \<times> string \<times> 'r \<times> int \<Rightarrow> 'r db \<Rightarrow> error + 'r db" where
  "insert_product row s =
     (if fst row \<in> set (map fst (products_t s)) then Inl IntegrityError
      else Inr (s\<lparr>products_t := products_t s @ [row]\<rparr>))"

definition insert_order :: "int \<times> int \<times> string \<times> 'r \<Rightarrow> 'r db \<Rightarrow> error + 'r db" where
  "insert_order row s =
     (if fst row \<in> set (map fst (orders_t s)) \<or> fst (snd row) \<notin> set (map fst (users_t s))
      then Inl IntegrityError
      else Inr (s\<lparr>orders_t := orders_t s @ [row]\<rparr>))"

definition insert_order_item :: "int \<times> int \<times> int \<times> int \<times> 'r \<Rightarrow> 'r db \<Rightarrow> error + 'r db" where
  "insert_order_item row s =
     (if fst row \<in> set (map fst (order_items_t s))
         \<or> fst (snd row) \<notin> set (map fst (orders_t s))
         \<or> fst (snd (snd row)) \<notin> set (map fst (products_t s))
      then Inl IntegrityError
      else Inr (s\<lparr>order_items_t := order_items_t s @ [row]\<rparr>))"

definition insert_payment :: "int \<times> int \<times> 'r \<times> string \<times> string \<times> string \<Rightarrow> 'r db \<Rightarrow> error + 'r db" where
  "insert_payment row s =
     (if fst row \<in> set (map fst (payments_t s)) \<or> fst (snd row) \<notin> set (map fst (orders_t s))
      then Inl IntegrityError
      else Inr (s\<lparr>payments_t := payments_t s @ [row]\<rparr>))"

text \<open>
  \<open>cur.executemany(sql, rows)\<close>: take the next row from the generator, insert it, repeat.
  An exception, of the generator or of the insert, ends the statement; nothing is committed.
\<close>

fun insert_rows :: "('row \<Rightarrow> 'r db \<Rightarrow> error + 'r db) \<Rightarrow> (error + 'row) list \<Rightarrow> 'r db \<Rightarrow> error + 'r db" where
  "insert_rows ins [] s = Inr s"
| "insert_rows ins (r # rs) s =
     ebind r (\<lambda>row. ebind (ins row s) (\<lambda>s'. insert_rows ins rs s'))"

definition executemany ::
  "('row \<Rightarrow> 'r db \<Rightarrow> error + 'r db) \<Rightarrow> error + (error + 'row) list \<Rightarrow> 'r conn \<Rightarrow> error + 'r conn" where
  "executemany ins rows c =
     ebind rows (\<lambda>rs. ebind (insert_rows ins rs (working c)) (\<lambda>s'. Inr (c\<lparr>working := s'\<rparr>)))"

subsection \<open>\<open>main\<close>\<close>

text \<open>
  \<open>data_dir\<close> is the export directory, \<open>None\<close> when it does not exist; \<open>store\<close> is the
  database file, \<open>None\<close> when it does not exist (\<open>sqlite3.connect\<close> then creates it empty).
  The result is the exception or the printed lines, and the database file afterwards.
\<close>

definition count_lines :: "'r db \<Rightarrow> string list" where
  "count_lines s =
     [''Rows inserted:'',
      ''  users: '' @ show_nat (length (users_t s)),
      ''  products: '' @ show_nat (length (products_t s)),
      ''  orders: '' @ show_nat (length (orders_t s)),
      ''  order_items: '' @ show_nat (length (order_items_t s)),
      ''  payments: '' @ show_nat (length (payments_t s))]"

definition load_all ::
  "(string \<Rightarrow> 'r option) \<Rightarrow> (string \<rightharpoonup> csv_row list) \<Rightarrow> 'r conn \<Rightarrow> error + 'r conn" where
  "load_all to_float dir c0 =
     ebind (executemany insert_user (load_users dir ''users.csv'') c0) (\<lambda>c1.
     ebind (executemany insert_product (load_products to_float dir ''products.csv'') c1) (\<lambda>c2.
     ebind (executemany insert_order (load_orders to_float dir ''orders.csv'') c2) (\<lambda>c3.
     ebind (executemany insert_order_item (load_order_items to_float dir ''order_items.csv'') c3) (\<lambda>c4.
     executemany insert_payment (load_payments to_float dir ''payments.csv'') c4))))"

definition ingest_main ::
  "(string \<Rightarrow> 'r option) \<Rightarrow> (string \<rightharpoonup> csv_row list) option \<Rightarrow> 'r db option
     \<Rightarrow> (error + string list) \<times> 'r db option" where
  "ingest_main to_float data_dir store =
     (case data_dir of
        None \<Rightarrow> (Inl (SystemExit ''Data directory not found''), store)
      | Some dir \<Rightarrow>
          (let s0 = (case store of None \<Rightarrow> empty_db | Some s \<Rightarrow> s);
               c0 = clear_tables (ensure_tables \<lparr>on_disk = s0, working = s0\<rparr>)
           in case load_all to_float dir c0 of
                Inl e \<Rightarrow> (Inl e, Some (on_disk c0))
              | Inr c5 \<Rightarrow> (Inr (count_lines (working c5)), Some (on_disk (commit c5)))))"

section \<open>run\_queries.py\<close>

subsection \<open>\<open>format_table\<close>\<close>

text \<open>A cell of a report row as sqlite3 returns it: an integer or a text.\<close>

datatype cell = CInt int | CText string

fun str :: "cell \<Rightarrow> string" where
  "str (CInt i) = show_int i"
| "str (CText s) = s"

text \<open>
  The inner loop \<open>for idx, col in enumerate(row): widths[idx] = max(widths[idx], len(col))\<close>.
  Reading \<open>widths[idx]\<close> past the end raises IndexError.
\<close>

fun widen_row :: "nat list \<Rightarrow> nat \<Rightarrow> string list \<Rightarrow> error + nat list" where
  "widen_row widths idx [] = Inr widths"
| "widen_row widths idx (col # cols) =
     (if idx < length widths
      then widen_row (widths[idx := max (widths ! idx) (length col)]) (Suc idx) cols
      else Inl IndexError)"

fun widen_rows :: "nat list \<Rightarrow> string list list \<Rightarrow> error + nat list" where
  "widen_rows widths [] = Inr widths"
| "widen_rows widths (row # rows) =
     (case widen_row widths 0 row of
        Inl e \<Rightarrow> Inl e
      | Inr widths' \<Rightarrow> widen_rows widths' rows)"

text \<open>\<open>col.ljust(widths[idx]) for idx, col in enumerate(row)\<close>, again with the index checked.\<close>

fun fmt_cells :: "nat list \<Rightarrow> nat \<Rightarrow> string list \<Rightarrow> error + string list" where
  "fmt_cells widths idx [] = Inr []"
| "fmt_cells widths idx (col # cols) =
     (if idx < length widths
      then (case fmt_cells widths (Suc idx) cols of
              Inl e \<Rightarrow> Inl e
            | Inr rest \<Rightarrow> Inr (ljust col (widths ! idx) # rest))
      else Inl IndexError)"

definition fmt_row :: "nat list \<Rightarrow> string list \<Rightarrow> error + string" where
  "fmt_row widths row =
     (case fmt_cells widths 0 row of Inl e \<Rightarrow> Inl e | Inr cells \<Rightarrow> Inr (join '' | '' cells))"

fun fmt_rows :: "nat list \<Rightarrow> string list list \<Rightarrow> error + string list" where
  "fmt_rows widths [] = Inr []"
| "fmt_rows widths (row # rows) =
     (case fmt_row widths row of
        Inl e \<Rightarrow> Inl e
      | Inr line \<Rightarrow> (case fmt_rows widths rows of Inl e \<Rightarrow> Inl e | Inr ls \<Rightarrow> Inr (line # ls)))"

definition format_table :: "string list \<Rightarrow> cell list list \<Rightarrow> error + string" where
  "format_table headers rows =
     (let str_rows = map (map str) rows in
      case widen_rows (map length headers) str_rows of
        Inl e \<Rightarrow> Inl e
      | Inr widths \<Rightarrow>
          (let divider = join ''-+-'' (map (\<lambda>w. replicate w CHR ''-'') widths) in
           case fmt_row widths headers of
             Inl e \<Rightarrow> Inl e
           | Inr head \<Rightarrow>
               (case fmt_rows widths str_rows of
                  Inl e \<Rightarrow> Inl e
                | Inr body \<Rightarrow> Inr (join [CHR 0x0A] (head # divider # body)))))"

subsection \<open>The table as the specification words it\<close>

text \<open>
  Column \<open>j\<close> is as wide as the longest of its header and of every rendered cell that a
  row has in that column.
\<close>

definition column_width :: "string list \<Rightarrow> string list list \<Rightarrow> nat \<Rightarrow> nat" where
  "column_width headers str_rows j =
     Max (set (length (headers ! j) # map (\<lambda>r. length (r ! j)) (filter (\<lambda>r. j < length r) str_rows)))"

definition spec_line :: "string list \<Rightarrow> string list list \<Rightarrow> string list \<Rightarrow> string" where
  "spec_line headers str_rows row =
     join '' | '' (map (\<lambda>j. ljust (row ! j) (column_width headers str_rows j)) [0..<length row])"

definition spec_divider :: "string list \<Rightarrow> string list list \<Rightarrow> string" where
  "spec_divider headers str_rows =
     join ''-+-'' (map (\<lambda>j. replicate (column_width headers str_rows j) CHR ''-'') [0..<length headers])"

definition spec_table :: "string list \<Rightarrow> cell list list \<Rightarrow> string" where
  "spec_table headers rows =
     (let str_rows = map (map str) rows in
      join [CHR 0x0A]
        (spec_line headers str_rows headers # spec_divider headers str_rows
           # map (spec_line headers str_rows) str_rows))"


subsection \<open>\<open>fetch_report\<close> and \<open>main\<close>\<close>

text \<open>
  The query: order items joined to their order, its user and their product, left-joined to
  the order's payments, ordered by user, order and order item. \<open>printf2\<close> is SQLite's
  \<open>printf('%.2f', x)\<close> on a \<open>REAL\<close>. Rows with equal sort keys keep their join order.
\<close>

definition payment_columns ::
  "(int \<times> int \<times> 'r \<times> string \<times> string \<times> string) list \<Rightarrow> int \<Rightarrow> (string \<times> string) list" where
  "payment_columns pays oid =
     (case filter (\<lambda>(pay_id, pay_oid, am, me, st, pa). pay_oid = oid) pays of
        [] \<Rightarrow> [(''N/A'', ''N/A'')]
      | matching \<Rightarrow> map (\<lambda>(pay_id, pay_oid, am, me, st, pa). (st, me)) matching)"

definition fetch_report :: "('r \<Rightarrow> string) \<Rightarrow> 'r db \<Rightarrow> cell list list" where
  "fetch_report printf2 s =
     map snd (sort_key fst
       [((u_id, o_id, oi_id),
         [CInt u_id, CText u_name, CInt o_id, CText pr_name, CInt qty,
          CText (printf2 up), CText (printf2 o_total), CText st, CText me]).
          (oi_id, oi_oid, oi_pid, qty, up) \<leftarrow> order_items_t s,
          (o_id, o_uid, o_date, o_total) \<leftarrow> orders_t s, oi_oid = o_id,
          (u_id, u_name, u_email, u_phone, u_created) \<leftarrow> users_t s, o_uid = u_id,
          (p_id, pr_name, p_cat, p_price, p_stock) \<leftarrow> products_t s, oi_pid = p_id,
          (st, me) \<leftarrow> payment_columns (payments_t s) o_id])"

definition headers :: "string list" where
  "headers = [''user_id'', ''name'', ''order_id'', ''product_name'', ''quantity'', ''unit_price'',
     ''total_amount'', ''payment_status'', ''payment_method'']"

definition no_data_message :: string where
  "no_data_message = ''No data found. Verify the database has been populated.''"

text \<open>The result is the exception or the text printed.\<close>

definition run_queries_main :: "('r \<Rightarrow> string) \<Rightarrow> 'r db option \<Rightarrow> error + string" where
  "run_queries_main printf2 store =
     (case store of
        None \<Rightarrow> Inl (SystemExit ''Database not found. Run ingest_to_sqlite.py first.'')
      | Some s \<Rightarrow>
          (let rows = fetch_report printf2 s in
           if rows = [] then Inr no_data_message
           else format_table headers rows))"

section \<open>From the generator to the report\<close>

subsection \<open>The date texts\<close>

text \<open>
  The text a \<open>Date_Text\<close> or \<open>Datetime_Text\<close> stands for: the proleptic Gregorian date of
  the day (the usual computation from the day number, eras of 400 years starting on
  1 March), month and day with two digits, then hours, minutes and seconds with two digits.
\<close>

definition civil_from_days :: "int \<Rightarrow> int \<times> int \<times> int" where
  "civil_from_days n =
     (let z = n + 719468;
          era = z div 146097;
          doe = z - era * 146097;
          yoe = (doe - doe div 1460 + doe div 36524 - doe div 146096) div 365;
          doy = doe - (365 * yoe + yoe div 4 - yoe div 100);
          mp = (5 * doy + 2) div 153;
          d = doy - (153 * mp + 2) div 5 + 1;
          m = (if mp < 10 then mp + 3 else mp - 9);
          y = yoe + era * 400 + (if m \<le> 2 then 1 else 0)
      in (y, m, d))"

definition two_digits :: "int \<Rightarrow> string" where
  "two_digits n = [digit_char (nat n div 10), digit_char (nat n mod 10)]"

fun date_string :: "date_text \<Rightarrow> string" where
  "date_string (Date_Text n) =
     (case civil_from_days n of
        (y, m, d) \<Rightarrow> show_int y @ ''-'' @ two_digits m @ ''-'' @ two_digits d)"

fun datetime_string :: "datetime_text \<Rightarrow> string" where
  "datetime_string (Datetime_Text s) =
     date_string (Date_Text (s div 86400)) @ '' '' @ two_digits (s mod 86400 div 3600)
       @ '':'' @ two_digits (s mod 3600 div 60) @ '':'' @ two_digits (s mod 60)"

subsection \<open>The files as the loader reads them\<close>

text \<open>
  \<open>write_csv\<close> writes \<open>asdict(row)\<close> under the header of field names, every value as its
  \<open>str\<close>; \<open>csv.DictReader\<close> gives the same dictionaries back, one per line.
\<close>

definition user_row :: "User \<Rightarrow> csv_row" where
  "user_row u =
     [''user_id'' \<mapsto> show_int (user_id u), ''name'' \<mapsto> name u, ''email'' \<mapsto> email u,
      ''phone'' \<mapsto> phone u, ''created_at'' \<mapsto> date_string (created_at u)]"

definition product_row :: "Product \<Rightarrow> csv_row" where
  "product_row p =
     [''product_id'' \<mapsto> show_int (product_id p), ''name'' \<mapsto> p_name p,
      ''category'' \<mapsto> category p, ''price'' \<mapsto> price p, ''stock'' \<mapsto> show_int (stock p)]"

definition order_row :: "Order \<Rightarrow> csv_row" where
  "order_row ord =
     [''order_id'' \<mapsto> show_int (order_id ord), ''user_id'' \<mapsto> show_int (o_user_id ord),
      ''order_date'' \<mapsto> date_string (order_date ord), ''total_amount'' \<mapsto> total_amount ord]"

definition order_item_row :: "OrderItem \<Rightarrow> csv_row" where
  "order_item_row it =
     [''order_item_id'' \<mapsto> show_int (order_item_id it), ''order_id'' \<mapsto> show_int (oi_order_id it),
      ''product_id'' \<mapsto> show_int (oi_product_id it), ''quantity'' \<mapsto> show_int (quantity it),
      ''unit_price'' \<mapsto> unit_price it]"

definition payment_row :: "Payment \<Rightarrow> csv_row" where
  "payment_row p =
     [''payment_id'' \<mapsto> show_int (payment_id p), ''order_id'' \<mapsto> show_int (pay_order_id p),
      ''amount'' \<mapsto> amount p, ''method'' \<mapsto> pay_method p, ''status'' \<mapsto> status p,
      ''paid_at'' \<mapsto> datetime_string (paid_at p)]"

fun csv_rows :: "file_content \<Rightarrow> csv_row list" where
  "csv_rows (Users_File users) = map user_row users"
| "csv_rows (Products_File products) = map product_row products"
| "csv_rows (Orders_File orders) = map order_row orders"
| "csv_rows (Order_Items_File items) = map order_item_row items"
| "csv_rows (Payments_File payments) = map payment_row payments"

definition csv_paths :: "string list" where
  "csv_paths = [''users.csv'', ''products.csv'', ''orders.csv'', ''order_items.csv'', ''payments.csv'']"

text \<open>The output directory of the generator as the export directory of the loader.\<close>

definition exported :: "output_dir \<Rightarrow> (string \<rightharpoonup> csv_row list) option" where
  "exported d =
     (if dir_exists d
      then Some (\<lambda>path. if path \<in> set csv_paths then map_option csv_rows (files d path) else None)
      else None)"

subsection \<open>\<open>float()\<close> and \<open>printf('%.2f')\<close>\<close>

text \<open>
  A \<open>REAL\<close> is a binary floating-point number, here the rational number it is. Of the two
  library functions only their documented accuracy is used, on the amounts in reach (up to
  14400.00). Python's \<open>float(text)\<close> is the double nearest to the decimal value of the
  text, so it is off by at most half a unit in the last of 53 binary places. SQLite's
  \<open>printf('%.2f', x)\<close> writes \<open>x\<close> rounded to two decimals; that this is the text of the
  amount is asked only of an \<open>x\<close> within a billionth of an amount.
\<close>

definition float_contract :: "(string \<Rightarrow> rat option) \<Rightarrow> bool" where
  "float_contract to_float =
     (\<forall>s v. Decimal s = Inr v \<and> 0 \<le> v \<and> v \<le> 14400 \<longrightarrow>
        (\<exists>x. to_float s = Some x \<and> \<bar>x - v\<bar> \<le> v / 2 ^ 53))"

definition printf_contract :: "(rat \<Rightarrow> string) \<Rightarrow> bool" where
  "printf_contract printf2 =
     (\<forall>x c. c \<le> 1440000 \<and> 0 \<le> x \<and> \<bar>x - of_nat c / 100\<bar> \<le> 1 / 10 ^ 9 \<longrightarrow>
        printf2 x = money (of_nat c / 100))"

text \<open>
  A \<open>float()\<close> that is never exact on a positive amount: every result is too large by the
  whole error the contract allows.
\<close>

definition inexact_float :: "string \<Rightarrow> rat option" where
  "inexact_float s = (case Decimal s of Inl e \<Rightarrow> None | Inr v \<Rightarrow> Some (v + v / 2 ^ 53))"

subsection \<open>The report rows of the generated records\<close>

text \<open>
  The report row of an item of an order, as the records were generated: the order's user,
  the item's product, the item's quantity and unit price text, the order's total text and
  the order's payment. An order has one row per item, in the order of the items.
\<close>

definition report_row ::
  "User list \<Rightarrow> Product list \<Rightarrow> Payment list \<Rightarrow> Order \<Rightarrow> OrderItem \<Rightarrow> cell list" where
  "report_row users products payments ord it =
     [CInt (o_user_id ord),
      CText (case find (\<lambda>u. user_id u = o_user_id ord) users of Some u \<Rightarrow> name u | None \<Rightarrow> ''''),
      CInt (order_id ord),
      CText (case find (\<lambda>p. product_id p = oi_product_id it) products of
               Some p \<Rightarrow> p_name p | None \<Rightarrow> ''''),
      CInt (quantity it),
      CText (unit_price it),
      CText (total_amount ord),
      CText (case find (\<lambda>p. pay_order_id p = order_id ord) payments of
               Some p \<Rightarrow> status p | None \<Rightarrow> ''N/A''),
      CText (case find (\<lambda>p. pay_order_id p = order_id ord) payments of
               Some p \<Rightarrow> pay_method p | None \<Rightarrow> ''N/A'')]"

definition order_rows ::
  "User list \<Rightarrow> Product list \<Rightarrow> Payment list \<Rightarrow> Order \<Rightarrow> OrderItem list \<Rightarrow> cell list list" where
  "order_rows users products payments ord its = map (report_row users products payments ord) its"

text \<open>The rows of a report that belong to an order: those with its id in the third column.\<close>

definition report_rows_of :: "Order \<Rightarrow> cell list list \<Rightarrow> cell list list" where
  "report_rows_of ord rows = filter (\<lambda>row. row ! 2 = CInt (order_id ord)) rows"

text \<open>
  A money text in reach: it reads as a decimal between 0 and 14400 that \<open>money\<close> writes
  back as the same text.
\<close>

definition storable :: "string \<Rightarrow> bool" where
  "storable s = (case Decimal s of Inl e \<Rightarrow> False | Inr v \<Rightarrow> 0 \<le> v \<and> v \<le> 14400 \<and> money v = s)"

text \<open>The tuples the loader inserts for the records, and the store they make.\<close>

definition user_tuple :: "User \<Rightarrow> int \<times> string \<times> string \<times> string \<times> string" where
  "user_tuple u = (user_id u, name u, email u, phone u, date_string (created_at u))"

definition product_tuple ::
  "(string \<Rightarrow> rat option) \<Rightarrow> Product \<Rightarrow> int \<times> string \<times> string \<times> rat \<times> int" where
  "product_tuple to_float p =
     (product_id p, p_name p, category p, the (to_float (price p)), stock p)"

definition order_tuple :: "(string \<Rightarrow> rat option) \<Rightarrow> Order \<Rightarrow> int \<times> int \<times> string \<times> rat" where
  "order_tuple to_float ord =
     (order_id ord, o_user_id ord, date_string (order_date ord), the (to_float (total_amount ord)))"

definition order_item_tuple ::
  "(string \<Rightarrow> rat option) \<Rightarrow> OrderItem \<Rightarrow> int \<times> int \<times> int \<times> int \<times> rat" where
  "order_item_tuple to_float it =
     (order_item_id it, oi_order_id it, oi_product_id it, quantity it, the (to_float (unit_price it)))"

definition payment_tuple ::
  "(string \<Rightarrow> rat option) \<Rightarrow> Payment \<Rightarrow> int \<times> int \<times> rat \<times> string \<times> string \<times> string" where
  "payment_tuple to_float p =
     (payment_id p, pay_order_id p, the (to_float (amount p)), pay_method p, status p,
      datetime_string (paid_at p))"

definition loaded_db ::
  "(string \<Rightarrow> rat option) \<Rightarrow> User list \<Rightarrow> Product list \<Rightarrow> Order list \<Rightarrow> OrderItem list
     \<Rightarrow> Payment list \<Rightarrow> rat db" where
  "loaded_db to_float users products orders items payments =
     \<lparr>users_t = map user_tuple users,
      products_t = map (product_tuple to_float) products,
      orders_t = map (order_tuple to_float) orders,
      order_items_t = map (order_item_tuple to_float) items,
      payments_t = map (payment_tuple to_float) payments\<rparr>"

section \<open>Sequencing\<close>

lemma ebind_simps [simp]:
  "ebind (Inl e) f = Inl e"
  "ebind (Inr x) f = f x"
  by (simp_all add: ebind_def)

lemma ebind_eq_Inr:
  "ebind m f = Inr y \<longleftrightarrow> (\<exists>x. m = Inr x \<and> f x = Inr y)"
  by (cases m) simp_all

section \<open>Verification of the generator\<close>

subsection \<open>Money: writing and reading a decimal\<close>

lemma digit_char_is_digit: "d < 10 \<Longrightarrow> is_digit (digit_char d)"
  by (simp add: is_digit_def digit_char_def)

lemma digit_val_digit_char: "d < 10 \<Longrightarrow> digit_val (digit_char d) = d"
  by (simp add: digit_val_def digit_char_def)

lemma show_nat_digits: "list_all is_digit (show_nat n)"
proof (induction n rule: show_nat.induct)
  case (1 n)
  show ?case
  proof (cases "n < 10")
    case True
    then show ?thesis by (subst show_nat.simps) (simp add: digit_char_is_digit)
  next
    case False
    with 1 show ?thesis by (subst show_nat.simps) (simp add: digit_char_is_digit)
  qed
qed

lemma show_nat_nonempty: "show_nat n \<noteq> []"
  by (subst show_nat.simps) simp

lemma parse_nat_snoc: "parse_nat (s @ [c]) = 10 * parse_nat s + digit_val c"
  by (simp add: parse_nat_def)

lemma parse_show_nat: "parse_nat (show_nat n) = n"
proof (induction n rule: show_nat.induct)
  case (1 n)
  show ?case
  proof (cases "n < 10")
    case True
    then show ?thesis
      by (subst show_nat.simps) (simp add: parse_nat_def digit_val_digit_char)
  next
    case False
    with 1 show ?thesis
      by (subst show_nat.simps) (simp add: parse_nat_snoc digit_val_digit_char)
  qed
qed

lemma takeWhile_digits:
  "list_all is_digit ds \<Longrightarrow> \<not> is_digit c \<Longrightarrow> takeWhile is_digit (ds @ c # rest) = ds"
  by (induction ds) simp_all

lemma dropWhile_digits:
  "list_all is_digit ds \<Longrightarrow> \<not> is_digit c \<Longrightarrow> dropWhile is_digit (ds @ c # rest) = c # rest"
  by (induction ds) simp_all

lemma point_not_digit: "\<not> is_digit CHR ''.''"
  by (simp add: is_digit_def)

lemma cents_digits: "(c div 100) * 100 + (c div 10 mod 10) * 10 + c mod 10 = (c::nat)"
  using mod_mult2_eq[of c 10 10] div_mult_mod_eq[of c 100] by simp

lemma Decimal_digits:
  assumes "list_all is_digit ip" "ip \<noteq> []" "list_all is_digit fp" "fp \<noteq> []"
  shows "Decimal (ip @ ''.'' @ fp) = Inr (of_nat (parse_nat (ip @ fp)) / 10 ^ length fp)"
    and "Decimal (''-'' @ ip @ ''.'' @ fp) = Inr (- (of_nat (parse_nat (ip @ fp)) / 10 ^ length fp))"
proof -
  let ?s = "ip @ CHR ''.'' # fp"
  from assms(1,2) have "is_digit (hd ip)" by (cases ip) simp_all
  then have "hd ip \<noteq> CHR ''-''" by (auto simp: is_digit_def)
  with assms(2) have neg: "hd ?s \<noteq> CHR ''-''" by simp
  have tw: "takeWhile is_digit ?s = ip"
    by (rule takeWhile_digits[OF assms(1) point_not_digit])
  have dw: "dropWhile is_digit ?s = CHR ''.'' # fp"
    by (rule dropWhile_digits[OF assms(1) point_not_digit])
  show "Decimal (ip @ ''.'' @ fp) = Inr (of_nat (parse_nat (ip @ fp)) / 10 ^ length fp)"
    unfolding Decimal_def Let_def using neg tw dw assms by simp
  show "Decimal (''-'' @ ip @ ''.'' @ fp) = Inr (- (of_nat (parse_nat (ip @ fp)) / 10 ^ length fp))"
    unfolding Decimal_def Let_def using tw dw assms by simp
qed

lemma parse_nat_two_digits:
  assumes "a < 10" "b < 10"
  shows "parse_nat (show_nat n @ [digit_char a, digit_char b]) = n * 100 + a * 10 + b"
proof -
  have "parse_nat ((show_nat n @ [digit_char a]) @ [digit_char b])
      = 10 * (10 * parse_nat (show_nat n) + digit_val (digit_char a)) + digit_val (digit_char b)"
    by (simp only: parse_nat_snoc)
  then show ?thesis
    using assms by (simp add: parse_show_nat digit_val_digit_char)
qed

lemma Decimal_money: "Decimal (money v) = Inr (round2 v)"
proof -
  let ?c = "quantize_cents v"
  let ?fp = "[digit_char (?c div 10 mod 10), digit_char (?c mod 10)]"
  have fp: "list_all is_digit ?fp" "?fp \<noteq> []"
    by (simp_all add: digit_char_is_digit)
  have pn: "parse_nat (show_nat (?c div 100) @ ?fp) = ?c"
    using parse_nat_two_digits[of "?c div 10 mod 10" "?c mod 10" "?c div 100"] cents_digits[of ?c]
    by simp
  note D = Decimal_digits[OF show_nat_digits show_nat_nonempty fp, of "?c div 100"]
  show ?thesis
  proof (cases "v < 0")
    case True
    with D(2) show ?thesis
      unfolding pn by (simp add: money_def round2_def Let_def)
  next
    case False
    with D(1) show ?thesis
      unfolding pn by (simp add: money_def round2_def Let_def)
  qed
qed

text \<open>Amounts in whole cents.\<close>

lemma quantize_cents_of_cents: "quantize_cents (of_int k / 100) = nat \<bar>k\<bar>"
proof -
  have "\<bar>of_int k / 100 :: rat\<bar> * 100 + 1 / 2 = of_int \<bar>k\<bar> + 1 / 2"
    by (simp add: abs_divide)
  moreover have "\<lfloor>of_int \<bar>k\<bar> + (1 / 2 :: rat)\<rfloor> = \<bar>k\<bar>"
    by (rule floor_unique) simp_all
  ultimately show ?thesis by (simp add: quantize_cents_def)
qed

lemma round2_of_cents: "round2 (of_int k / 100) = of_int k / 100"
proof -
  have "(of_int k / 100 :: rat) < 0 \<longleftrightarrow> k < 0" by simp
  then show ?thesis
    unfolding round2_def quantize_cents_of_cents
    by (cases "k < 0") (simp_all add: of_nat_nat)
qed

lemma round2_is_cents: "\<exists>k. round2 v = of_int k / 100"
proof (cases "v < 0")
  case True
  then have "round2 v = of_int (- int (quantize_cents v)) / 100" by (simp add: round2_def)
  then show ?thesis by (rule exI)
next
  case False
  then have "round2 v = of_int (int (quantize_cents v)) / 100" by (simp add: round2_def)
  then show ?thesis by (rule exI)
qed

subsection \<open>The random source\<close>

lemma randbelow_less: "0 < n \<Longrightarrow> fst (randbelow n g) < n"
  by (cases g) (simp add: randbelow_def)

lemma randint_empty: "b < a \<Longrightarrow> randint a b g = Inl ValueError"
  by (simp add: randint_def)

lemma randint_Inr:
  assumes "randint a b g = Inr (r, g')"
  shows "a \<le> r \<and> r \<le> b"
proof -
  from assms have ab: "a \<le> b" by (auto simp: randint_def split: if_splits)
  then have "fst (randbelow (nat (b - a + 1)) g) < nat (b - a + 1)"
    by (intro randbelow_less) simp
  with assms ab show ?thesis
    by (auto simp: randint_def split: prod.splits)
qed

lemma randint_total:
  assumes "a \<le> b"
  shows "\<exists>r g'. randint a b g = Inr (r, g')"
  using assms by (simp add: randint_def split: prod.splits)

lemma choice_empty: "choice [] g = Inl IndexError"
  by (simp add: choice_def)

lemma choice_total:
  assumes "seq \<noteq> []"
  shows "\<exists>x g'. choice seq g = Inr (x, g') \<and> x \<in> set seq"
proof -
  from assms have "fst (randbelow (length seq) g) < length seq"
    by (intro randbelow_less) simp
  with assms show ?thesis
    by (auto simp: choice_def split: prod.splits)
qed

lemma random_range: "0 \<le> fst (random g) \<and> fst (random g) \<le> 1"
proof (cases g)
  case (Rng f i)
  have "(of_nat (f i mod 2 ^ 53) :: rat) \<le> of_nat (2 ^ 53)"
    unfolding of_nat_le_iff by (rule less_imp_le) simp
  then show ?thesis using Rng by (simp add: random_def)
qed

lemma uniform_range:
  assumes "a \<le> b"
  shows "a \<le> fst (uniform a b g) \<and> fst (uniform a b g) \<le> b"
proof -
  obtain u g' where u: "random g = (u, g')" by (cases "random g")
  with random_range[of g] have r: "0 \<le> u" "u \<le> 1" by simp_all
  from assms r have "0 \<le> (b - a) * u" by simp
  moreover from assms r have "(b - a) * u \<le> (b - a) * 1"
    by (intro mult_left_mono) simp_all
  ultimately show ?thesis using u by (simp add: uniform_def)
qed

lemma mset_pool_step:
  assumes "j < length pool"
  shows "mset (butlast (pool[j := last pool])) = mset pool - {#pool ! j#}"
proof -
  let ?xs = "pool[j := last pool]"
  from assms have ne: "?xs \<noteq> []" by auto
  from assms have pne: "pool \<noteq> []" by auto
  have last: "last ?xs = last pool"
    using pne by (simp add: last_list_update)
  have "add_mset (last ?xs) (mset (butlast ?xs)) = mset ?xs"
    using append_butlast_last_id[OF ne] by (metis mset.simps(2) mset_append union_mset_add_mset_right add.right_neutral mset.simps(1))
  then have "add_mset (last pool) (mset (butlast ?xs)) = add_mset (last pool) (mset pool - {#pool ! j#})"
    using assms last by (simp add: mset_update)
  then show ?thesis by simp
qed

lemma sample_pool_mset:
  "k \<le> length pool \<Longrightarrow>
     mset (fst (sample_pool pool k g)) \<subseteq># mset pool \<and> length (fst (sample_pool pool k g)) = k"
proof (induction k arbitrary: pool g)
  case 0
  then show ?case by simp
next
  case (Suc k)
  obtain j g1 where j: "randbelow (length pool) g = (j, g1)" by (cases "randbelow (length pool) g")
  from Suc.prems have pos: "0 < length pool" by (cases pool) simp_all
  with randbelow_less[OF pos, of g] j have jlt: "j < length pool" by simp
  let ?pool' = "butlast (pool[j := last pool])"
  obtain rest g2 where rest: "sample_pool ?pool' k g1 = (rest, g2)" by (cases "sample_pool ?pool' k g1")
  from Suc.prems have "k \<le> length ?pool'" by simp
  from Suc.IH[OF this, of g1] rest have
    sub: "mset rest \<subseteq># mset ?pool'" and len: "length rest = k" by simp_all
  from jlt have mem: "pool ! j \<in># mset pool" by simp
  from sub have "add_mset (pool ! j) (mset rest) \<subseteq># add_mset (pool ! j) (mset pool - {#pool ! j#})"
    by (simp add: mset_pool_step[OF jlt])
  with mem have "mset (pool ! j # rest) \<subseteq># mset pool" by simp
  with len j rest show ?case by simp
qed

lemma sample_Inr:
  assumes "sample population k g = Inr (chosen, g')"
  shows "mset chosen \<subseteq># mset population \<and> int (length chosen) = k"
proof -
  from assms have k: "0 \<le> k" "k \<le> int (length population)"
    and c: "chosen = fst (sample_pool population (nat k) g)"
    by (auto simp: sample_def split: if_splits)
  from k have "nat k \<le> length population" by simp
  from sample_pool_mset[OF this, of g] c k show ?thesis by simp
qed

lemma sample_total:
  assumes "0 \<le> k" "k \<le> int (length population)"
  shows "\<exists>chosen g'. sample population k g = Inr (chosen, g')"
  using assms by (simp add: sample_def prod_eq_iff)

lemma distinct_sub_mset:
  assumes "mset xs \<subseteq># mset ys" "distinct ys"
  shows "distinct xs"
proof -
  have "count (mset xs) a = (if a \<in> set xs then 1 else 0)" for a
  proof (cases "a \<in> set xs")
    case True
    then have "a \<in># mset xs" by simp
    then have "1 \<le> count (mset xs) a" by (simp add: Suc_le_eq)
    moreover have "count (mset xs) a \<le> count (mset ys) a"
      using assms(1) by (rule mset_subset_eq_count)
    moreover have "count (mset ys) a \<le> 1"
      using assms(2) by (simp add: distinct_count_atmost_1)
    ultimately have "count (mset xs) a = 1" by linarith
    with True show ?thesis by simp
  next
    case False
    then have "a \<notin># mset xs" by simp
    then show ?thesis using False by (simp add: not_in_iff)
  qed
  then show ?thesis by (simp add: distinct_count_atmost_1)
qed

lemma distinct_map_sub_mset:
  assumes "mset xs \<subseteq># mset ys" "distinct (map f ys)"
  shows "distinct (map f xs)"
proof -
  from assms(1) have "image_mset f (mset xs) \<subseteq># image_mset f (mset ys)"
    by (rule image_mset_subseteq_mono)
  then have "mset (map f xs) \<subseteq># mset (map f ys)" by simp
  then show ?thesis using assms(2) by (rule distinct_sub_mset)
qed

lemma choices_total:
  "\<exists>x g'. choices [''Completed'', ''Pending'', ''Failed''] [82 / 100, 12 / 100, 6 / 100] g = Inr (x, g')"
  by (simp add: choices_def split: prod.splits)

subsection \<open>Dates\<close>

lemma random_date_total:
  assumes "start \<le> end"
  shows "\<exists>t g'. random_date start end g = Inr (t, g')"
proof -
  from assms have "0 \<le> whole_seconds (end - start)"
    by (simp add: whole_seconds_def)
  from randint_total[OF this, of g] show ?thesis
    by (auto simp: random_date_def)
qed

lemma paid_at_gap:
  assumes "1 \<le> h" "h \<le> 48"
  shows "3600 \<le> seconds_between (strftime_date t) (strftime_datetime (t + hours h))
       \<and> seconds_between (strftime_date t) (strftime_datetime (t + hours h)) < 259200"
proof -
  let ?u = "t div 1000000"
  have a: "(t + hours h) div 1000000 = ?u + 3600 * h"
  proof -
    have "t + hours h = t + (3600 * h) * 1000000" by (simp add: hours_def)
    then show ?thesis by (simp only: div_mult_self2) 
  qed
  have "t div 86400000000 = t div (1000000 * 86400)" by simp
  also have "\<dots> = ?u div 86400" by (rule zdiv_zmult2_eq) simp
  finally have b: "t div 86400000000 = ?u div 86400" .
  have c: "?u - 86400 * (?u div 86400) = ?u mod 86400"
    by (simp add: minus_mult_div_eq_mod)
  have d: "0 \<le> ?u mod 86400" "?u mod 86400 < 86400" by simp_all
  have e: "seconds_between (strftime_date t) (strftime_datetime (t + hours h))
      = ?u mod 86400 + 3600 * h"
    unfolding strftime_date_def strftime_datetime_def seconds_between.simps a b
    using c by simp
  from d assms have "3600 \<le> ?u mod 86400 + 3600 * h \<and> ?u mod 86400 + 3600 * h < 259200"
    by linarith
  with e show ?thesis by (simp only:)
qed

subsection \<open>Whole cents\<close>

lemma round2_idem: "round2 (round2 v) = round2 v"
proof -
  from round2_is_cents[of v] obtain k where "round2 v = of_int k / 100" ..
  then show ?thesis by (simp only: round2_of_cents)
qed

lemma round2_zero: "round2 0 = 0"
  using round2_of_cents[of 0] by simp

lemma round2_add:
  assumes "round2 x = x" "round2 y = y"
  shows "round2 (x + y) = x + y"
proof -
  from round2_is_cents[of x] assms(1) obtain j where j: "x = of_int j / 100" by auto
  from round2_is_cents[of y] assms(2) obtain k where k: "y = of_int k / 100" by auto
  have "x + y = of_int (j + k) / 100" by (simp add: j k add_divide_distrib)
  then show ?thesis by (simp only: round2_of_cents)
qed

lemma round2_times_int:
  assumes "round2 x = x"
  shows "round2 (x * of_int q) = x * of_int q"
proof -
  from round2_is_cents[of x] assms obtain j where j: "x = of_int j / 100" by auto
  have "x * of_int q = of_int (j * q) / 100" by (simp add: j)
  then show ?thesis by (simp only: round2_of_cents)
qed

lemma round2_bounds:
  assumes "0 \<le> v" "v \<le> 1200"
  shows "0 \<le> round2 v \<and> round2 v \<le> 1200"
proof -
  from assms have "\<bar>v\<bar> * 100 + 1 / 2 \<le> 120000 + 1 / 2" by simp
  then have "\<lfloor>\<bar>v\<bar> * 100 + 1 / 2\<rfloor> \<le> \<lfloor>120000 + 1 / 2 :: rat\<rfloor>" by (rule floor_mono)
  also have "\<lfloor>120000 + 1 / 2 :: rat\<rfloor> = 120000" by (rule floor_unique) simp_all
  finally have "\<lfloor>\<bar>v\<bar> * 100 + 1 / 2\<rfloor> \<le> 120000" .
  then have "quantize_cents v \<le> 120000" unfolding quantize_cents_def by linarith
  then have "(of_nat (quantize_cents v) :: rat) \<le> of_nat 120000" by (simp only: of_nat_le_iff)
  with assms show ?thesis by (simp add: round2_def)
qed

subsection \<open>The loops\<close>

lemma users_loop_total:
  "\<exists>users g'. users_loop today uids g = Inr (users, g') \<and> map user_id users = uids"
proof (induction uids arbitrary: g)
  case Nil
  show ?case by simp
next
  case (Cons uid uids)
  obtain first g1 where 1: "choice first_names g = Inr (first, g1)"
    using choice_total[of first_names g] by (auto simp: first_names_def)
  obtain last g2 where 2: "choice last_names g1 = Inr (last, g2)"
    using choice_total[of last_names g1] by (auto simp: last_names_def)
  obtain ph1 g3 where 3: "randint 200 999 g2 = Inr (ph1, g3)"
    using randint_total[of 200 999 g2] by auto
  obtain ph2 g4 where 4: "randint 1000 9999 g3 = Inr (ph2, g4)"
    using randint_total[of 1000 9999 g3] by auto
  obtain created g5 where 5: "random_date (today - days 365) (today - days 10) g4 = Inr (created, g5)"
    using random_date_total[of "today - days 365" "today - days 10" g4] by (auto simp: days_def)
  from Cons.IH[of g5] obtain users g6 where
    6: "users_loop today uids g5 = Inr (users, g6)" and ids: "map user_id users = uids"
    by blast
  show ?case by (simp add: 1 2 3 4 5 6 ids)
qed

lemma products_loop_total:
  "\<exists>products g'. products_loop pids g = Inr (products, g') \<and> map product_id products = pids
     \<and> (\<forall>p \<in> set products. \<exists>v. 0 \<le> v \<and> v \<le> 1200 \<and> price p = money v)"
proof (induction pids arbitrary: g)
  case Nil
  show ?case by simp
next
  case (Cons pid pids)
  obtain adjective g1 where 1: "choice adjectives g = Inr (adjective, g1)"
    using choice_total[of adjectives g] by (auto simp: adjectives_def)
  obtain noun g2 where 2: "choice nouns g1 = Inr (noun, g2)"
    using choice_total[of nouns g1] by (auto simp: nouns_def)
  obtain cat g3 where 3: "choice categories g2 = Inr (cat, g3)"
    using choice_total[of categories g2] by (auto simp: categories_def)
  obtain base_price g4 where 4: "uniform 20 1200 g3 = (base_price, g4)"
    by (cases "uniform 20 1200 g3")
  with uniform_range[of 20 1200 g3] have range: "0 \<le> base_price" "base_price \<le> 1200" by simp_all
  obtain stk g5 where 5: "randint 20 400 g4 = Inr (stk, g5)"
    using randint_total[of 20 400 g4] by auto
  from Cons.IH[of g5] obtain products g6 where
    6: "products_loop pids g5 = Inr (products, g6)" and ids: "map product_id products = pids"
    and prices: "\<forall>p \<in> set products. \<exists>v. 0 \<le> v \<and> v \<le> 1200 \<and> price p = money v"
    by blast
  have "\<exists>v. 0 \<le> v \<and> v \<le> 1200 \<and> money base_price = money v"
    using range by blast
  with prices show ?case by (simp add: 1 2 3 4 5 6 ids)
qed

lemma items_loop_total:
  assumes "\<forall>p \<in> set ps. \<exists>v. 0 \<le> v \<and> v \<le> 1200 \<and> price p = money v"
  shows "\<exists>its s g'. items_loop oid ps lt nid g = Inr (its, lt + s, nid + int (length ps), g')
     \<and> map oi_product_id its = map product_id ps
     \<and> list_all (\<lambda>it. oi_order_id it = oid) its
     \<and> sum_rounded its = Inr s \<and> round2 s = s \<and> 0 \<le> s \<and> s \<le> 3600 * of_nat (length ps)"
  using assms
proof (induction ps arbitrary: lt nid g)
  case Nil
  show ?case by (simp add: round2_zero)
next
  case (Cons p ps)
  obtain qty g1 where 1: "randint 1 3 g = Inr (qty, g1)"
    using randint_total[of 1 3 g] by auto
  from randint_Inr[OF 1] have qty: "1 \<le> qty" "qty \<le> 3" by simp_all
  from Cons.prems obtain v where v: "0 \<le> v" "v \<le> 1200" "price p = money v" by auto
  define u where "u = round2 v"
  have 2: "Decimal (price p) = Inr u" by (simp add: v(3) Decimal_money u_def)
  have u: "round2 u = u" "0 \<le> u" "u \<le> 1200"
    using round2_bounds[OF v(1,2)] by (simp_all add: u_def round2_idem)
  from Cons.prems have "\<forall>p \<in> set ps. \<exists>v. 0 \<le> v \<and> v \<le> 1200 \<and> price p = money v" by simp
  from Cons.IH[OF this, of "lt + u * of_int qty" "nid + 1" g1] obtain its s g' where
    3: "items_loop oid ps (lt + u * of_int qty) (nid + 1) g1
          = Inr (its, lt + u * of_int qty + s, nid + 1 + int (length ps), g')"
    and pids: "map oi_product_id its = map product_id ps"
    and oids: "list_all (\<lambda>it. oi_order_id it = oid) its"
    and sum: "sum_rounded its = Inr s" and s: "round2 s = s" "0 \<le> s" "s \<le> 3600 * of_nat (length ps)"
    by blast
  have line: "round2 (u * of_int qty) = u * of_int qty"
    by (rule round2_times_int[OF u(1)])
  have q: "(1::rat) \<le> of_int qty" "(of_int qty :: rat) \<le> 3"
    using qty by simp_all
  have lb: "0 \<le> u * of_int qty" using u(2) q by simp
  have "u * of_int qty \<le> 1200 * 3"
    using u q by (intro mult_mono) simp_all
  then have ub: "u * of_int qty \<le> 3600" by simp
  let ?s = "u * of_int qty + s"
  have r: "round2 ?s = ?s" by (rule round2_add[OF line s(1)])
  have sr: "sum_rounded (\<lparr>order_item_id = nid, oi_order_id = oid, oi_product_id = product_id p,
                quantity = qty, unit_price = money u\<rparr> # its) = Inr ?s"
    by (simp add: Decimal_money u(1) line sum)
  have bound: "0 \<le> ?s" "?s \<le> 3600 * of_nat (length (p # ps))"
    using lb ub s(2,3) by simp_all
  have run: "items_loop oid (p # ps) lt nid g
     = Inr (\<lparr>order_item_id = nid, oi_order_id = oid, oi_product_id = product_id p,
                quantity = qty, unit_price = money u\<rparr> # its, lt + ?s, nid + int (length (p # ps)), g')"
    by (simp add: 1 2 3 add.assoc)
  let ?it = "\<lparr>order_item_id = nid, oi_order_id = oid, oi_product_id = product_id p,
                quantity = qty, unit_price = money u\<rparr>"
  have pids': "map oi_product_id (?it # its) = map product_id (p # ps)" using pids by simp
  have oids': "list_all (\<lambda>it. oi_order_id it = oid) (?it # its)" using oids by simp
  from run pids' oids' sr r bound show ?case by blast
qed

lemma orders_loop_no_users:
  "orders_loop today [] products (oid # oids) nid pid g = Inl IndexError"
  by (simp add: choice_empty)

lemma orders_loop_no_products:
  assumes "users \<noteq> []"
  shows "orders_loop today users [] (oid # oids) nid pid g = Inl ValueError"
proof -
  obtain user g1 where 1: "choice users g = Inr (user, g1)"
    using choice_total[OF assms, of g] by auto
  obtain order_dt g2 where
    2: "random_date (today - days 120) (today - days 1) g1 = Inr (order_dt, g2)"
    using random_date_total[of "today - days 120" "today - days 1" g1] by (auto simp: days_def)
  show ?thesis by (simp add: 1 2 randint_empty)
qed

lemma orders_loop_total:
  assumes users: "users \<noteq> []" and products: "products \<noteq> []"
    and prices: "\<forall>p \<in> set products. \<exists>v. 0 \<le> v \<and> v \<le> 1200 \<and> price p = money v"
    and ids: "distinct (map product_id products)"
  shows "\<exists>orders groups payments.
     orders_loop today users products oids nid pid g = Inr (orders, concat groups, payments)
     \<and> map order_id orders = oids
     \<and> list_all2 (order_items_ok (length products)) orders groups
     \<and> list_all2 order_payment_ok orders payments
     \<and> map payment_id payments = [pid .. pid + int (length oids) - 1]"
proof (induction oids arbitrary: nid pid g)
  case Nil
  have "orders_loop today users products [] nid pid g = Inr ([], concat [], [])" by simp
  then show ?case by fastforce
next
  case (Cons oid oids)
  obtain user g1 where 1: "choice users g = Inr (user, g1)"
    using choice_total[OF users, of g] by auto
  obtain order_dt g2 where
    2: "random_date (today - days 120) (today - days 1) g1 = Inr (order_dt, g2)"
    using random_date_total[of "today - days 120" "today - days 1" g1] by (auto simp: days_def)
  from products have n: "1 \<le> min 4 (int (length products))"
    by (cases products) simp_all
  obtain k g3 where 3: "randint 1 (min 4 (int (length products))) g2 = Inr (k, g3)"
    using randint_total[OF n, of g2] by auto
  from randint_Inr[OF 3] have k: "1 \<le> k" "k \<le> 4" "k \<le> int (length products)" by simp_all
  obtain chosen g4 where 4: "sample products k g3 = Inr (chosen, g4)"
    using sample_total[of k products g3] k by auto
  from sample_Inr[OF 4] have sub: "mset chosen \<subseteq># mset products" and len: "int (length chosen) = k"
    by simp_all
  from sub have "set chosen \<subseteq> set products" by (metis set_mset_mono set_mset_mset)
  with prices have cprices: "\<forall>p \<in> set chosen. \<exists>v. 0 \<le> v \<and> v \<le> 1200 \<and> price p = money v"
    by blast
  from items_loop_total[OF cprices, of oid 0 nid g4] obtain new_items s g5 where
    5: "items_loop oid chosen 0 nid g4 = Inr (new_items, 0 + s, nid + int (length chosen), g5)"
    and pids: "map oi_product_id new_items = map product_id chosen"
    and item_oids: "list_all (\<lambda>it. oi_order_id it = oid) new_items"
    and sum: "sum_rounded new_items = Inr s"
    and s: "round2 s = s" "0 \<le> s" "s \<le> 3600 * of_nat (length chosen)"
    by blast
  obtain stat g6 where
    6: "choices [''Completed'', ''Pending'', ''Failed''] [82 / 100, 12 / 100, 6 / 100] g5 = Inr (stat, g6)"
    using choices_total[of g5] by auto
  obtain payment_method g7 where
    7: "choice [''Credit Card'', ''Debit Card'', ''PayPal'', ''Apple Pay''] g6 = Inr (payment_method, g7)"
    using choice_total[of "[''Credit Card'', ''Debit Card'', ''PayPal'', ''Apple Pay'']" g6] by auto
  obtain h g8 where 8: "randint 1 48 g7 = Inr (h, g8)"
    using randint_total[of 1 48 g7] by auto
  from randint_Inr[OF 8] have h: "1 \<le> h" "h \<le> 48" by simp_all
  from Cons.IH[of "nid + int (length chosen)" "pid + 1" g8] obtain orders groups payments where
    9: "orders_loop today users products oids (nid + int (length chosen)) (pid + 1) g8
          = Inr (orders, concat groups, payments)"
    and o_ids: "map order_id orders = oids"
    and items_ok: "list_all2 (order_items_ok (length products)) orders groups"
    and pays_ok: "list_all2 order_payment_ok orders payments"
    and pay_ids: "map payment_id payments = [pid + 1 .. pid + 1 + int (length oids) - 1]"
    by blast
  let ?ord = "\<lparr>order_id = oid, o_user_id = user_id user, order_date = strftime_date order_dt,
                total_amount = money s\<rparr>"
  let ?pay = "\<lparr>payment_id = pid, pay_order_id = oid, amount = money s,
                pay_method = payment_method, status = stat,
                paid_at = strftime_datetime (order_dt + hours h)\<rparr>"
  have run: "orders_loop today users products (oid # oids) nid pid g
      = Inr (?ord # orders, concat (new_items # groups), ?pay # payments)"
    using 6 by (simp add: 1 2 3 4 5 7 8 9)
  have len_nat: "length new_items = length chosen"
    using pids by (metis length_map)
  have cnt: "1 \<le> length new_items" "length new_items \<le> min 4 (length products)"
    using k len len_nat by simp_all
  have "distinct (map product_id chosen)"
    by (rule distinct_map_sub_mset[OF sub ids])
  then have dist: "distinct (map oi_product_id new_items)" by (simp only: pids)
  have "s \<le> 3600 * of_nat 4"
  proof -
    from k len have "length chosen \<le> 4" by simp
    then have "(of_nat (length chosen) :: rat) \<le> of_nat 4" by (simp only: of_nat_le_iff)
    with s(3) show ?thesis by simp
  qed
  then have s4: "s \<le> 14400" by simp
  have ok1: "order_items_ok (length products) ?ord new_items"
    unfolding order_items_ok_def using item_oids cnt dist sum s(1,2) s4 by simp
  have ok2: "order_payment_ok ?ord ?pay"
    unfolding order_payment_ok_def using paid_at_gap[OF h, of order_dt] by simp
  have a: "map order_id (?ord # orders) = oid # oids" using o_ids by simp
  have b: "list_all2 (order_items_ok (length products)) (?ord # orders) (new_items # groups)"
    using ok1 items_ok by simp
  have c: "list_all2 order_payment_ok (?ord # orders) (?pay # payments)"
    using ok2 pays_ok by simp
  have d: "map payment_id (?pay # payments) = [pid .. pid + int (length (oid # oids)) - 1]"
  proof -
    have e: "pid + 1 + int (length oids) - 1 = pid + int (length (oid # oids)) - 1" by simp
    have "[pid .. pid + int (length (oid # oids)) - 1]
        = pid # [pid + 1 .. pid + int (length (oid # oids)) - 1]"
      using upto_rec1[of pid "pid + int (length (oid # oids)) - 1"] by simp
    with pay_ids show ?thesis unfolding e by simp
  qed
  show ?case
  proof (intro exI conjI)
    show "orders_loop today users products (oid # oids) nid pid g
      = Inr (?ord # orders, concat (new_items # groups), ?pay # payments)" by (rule run)
    show "map order_id (?ord # orders) = oid # oids" by (rule a)
    show "list_all2 (order_items_ok (length products)) (?ord # orders) (new_items # groups)"
      by (rule b)
    show "list_all2 order_payment_ok (?ord # orders) (?pay # payments)" by (rule c)
    show "map payment_id (?pay # payments) = [pid .. pid + int (length (oid # oids)) - 1]"
      by (rule d)
  qed
qed

subsection \<open>Orders with their items and payments\<close>

lemma filter_foreign_groups:
  assumes "list_all2 (\<lambda>x ys. \<forall>y \<in> set ys. g y = f x) xs yss" "k \<notin> f ` set xs"
  shows "filter (\<lambda>y. g y = k) (concat yss) = []"
  using assms by (induction rule: list_all2_induct) (auto simp: filter_empty_conv)

lemma filter_concat_groups:
  assumes "list_all2 (\<lambda>x ys. \<forall>y \<in> set ys. g y = f x) xs yss" "distinct (map f xs)"
  shows "list_all2 (\<lambda>x ys. filter (\<lambda>y. g y = f x) (concat yss) = ys) xs yss"
  using assms
proof (induction rule: list_all2_induct)
  case Nil
  show ?case by simp
next
  case (Cons x xs ys yss)
  from Cons.prems have notin: "f x \<notin> f ` set xs" and dist: "distinct (map f xs)" by simp_all
  have own: "filter (\<lambda>y. g y = f x) ys = ys"
    using Cons.hyps(1) by (simp add: filter_id_conv)
  have foreign: "filter (\<lambda>y. g y = f x) (concat yss) = []"
    by (rule filter_foreign_groups[OF Cons.hyps(2) notin])
  have head: "filter (\<lambda>y. g y = f x) (concat (ys # yss)) = ys"
    using own foreign by simp
  have tail: "list_all2 (\<lambda>x' ys'. filter (\<lambda>y. g y = f x') (concat (ys # yss)) = ys') xs yss"
  proof (rule list.rel_mono_strong[OF Cons.IH[OF dist]])
    fix x' ys'
    assume x': "x' \<in> set xs" and eq: "filter (\<lambda>y. g y = f x') (concat yss) = ys'"
    from x' notin have "f x' \<noteq> f x" by (metis image_eqI)
    with Cons.hyps(1) have "filter (\<lambda>y. g y = f x') ys = []"
      by (auto simp: filter_empty_conv)
    with eq show "filter (\<lambda>y. g y = f x') (concat (ys # yss)) = ys'" by simp
  qed
  from head tail show ?case by simp
qed

lemma list_all2_at_function:
  assumes "list_all2 P xs ys" "list_all2 (\<lambda>x y. h x = y) xs ys" "x \<in> set xs"
  shows "P x (h x)"
  using assms by (induction rule: list_all2_induct) auto

lemma list_all2_partner:
  assumes "list_all2 R xs ys" "y \<in> set ys"
  shows "\<exists>x \<in> set xs. R x y"
  using assms by (induction rule: list_all2_induct) auto

lemma unique_partner:
  assumes "list_all2 R xs ys" "distinct (map f xs)" "\<And>x y. R x y \<Longrightarrow> g y = f x" "x \<in> set xs"
  shows "\<exists>y. filter (\<lambda>y. g y = f x) ys = [y] \<and> R x y"
proof -
  let ?yss = "map (\<lambda>y. [y]) ys"
  have "list_all2 (\<lambda>x ys. \<forall>y \<in> set ys. g y = f x) xs ?yss"
    using assms(1,3) by (induction rule: list_all2_induct) auto
  from filter_concat_groups[OF this assms(2)] have
    a: "list_all2 (\<lambda>x zs. filter (\<lambda>y. g y = f x) ys = zs) xs ?yss"
    by (simp add: concat_map_singleton)
  have b: "list_all2 (\<lambda>x zs. \<exists>y. zs = [y] \<and> R x y) xs ?yss"
    using assms(1) by (induction rule: list_all2_induct) auto
  from list_all2_at_function[OF b a assms(4)] show ?thesis by simp
qed

subsection \<open>A generated dataset\<close>

lemma upto_from_one: "[1 .. 1 + int (length [1..n]) - 1] = [1..n]"
  by (cases "1 \<le> n") simp_all

lemma generate_structure:
  assumes "generate a now1 now2 g = Inr (users, products, orders, items, payments)"
  shows "\<exists>groups. items = concat groups
     \<and> map user_id users = [1..users_arg a]
     \<and> map product_id products = [1..products_arg a]
     \<and> map order_id orders = [1..orders_arg a]
     \<and> list_all2 (order_items_ok (length products)) orders groups
     \<and> list_all2 order_payment_ok orders payments
     \<and> map payment_id payments = [1..orders_arg a]"
proof -
  obtain us g1 where us: "generate_users (users_arg a) now1 g = Inr (us, g1)"
    and uids: "map user_id us = [1..users_arg a]"
    using users_loop_total[of now1 "[1..users_arg a]" g] by (auto simp: generate_users_def)
  obtain ps g2 where ps: "generate_products (products_arg a) g1 = Inr (ps, g2)"
    and pids: "map product_id ps = [1..products_arg a]"
    and prices: "\<forall>p \<in> set ps. \<exists>v. 0 \<le> v \<and> v \<le> 1200 \<and> price p = money v"
    using products_loop_total[of "[1..products_arg a]" g1] by (auto simp: generate_products_def)
  from assms us ps have eq: "users = us" "products = ps"
    and run: "orders_loop now2 us ps [1..orders_arg a] 1 1 g2 = Inr (orders, items, payments)"
    by (auto simp: generate_def generate_orders_def ebind_eq_Inr)
  have dist: "distinct (map product_id ps)" by (simp add: pids)
  have "\<exists>groups. items = concat groups
     \<and> map order_id orders = [1..orders_arg a]
     \<and> list_all2 (order_items_ok (length ps)) orders groups
     \<and> list_all2 order_payment_ok orders payments
     \<and> map payment_id payments = [1..orders_arg a]"
  proof (cases "[1..orders_arg a]")
    case Nil
    with run have "orders = []" "items = concat []" "payments = []" by simp_all
    with Nil show ?thesis by fastforce
  next
    case (Cons oid oids)
    have une: "us \<noteq> []"
    proof
      assume "us = []"
      with run Cons orders_loop_no_users[of now2 ps oid oids 1 1 g2] show False
        by (simp del: orders_loop.simps)
    qed
    have pne: "ps \<noteq> []"
    proof
      assume "ps = []"
      with run Cons orders_loop_no_products[OF une, of now2 oid oids 1 1 g2] show False
        by (simp del: orders_loop.simps)
    qed
    from orders_loop_total[OF une pne prices dist, of now2 "[1..orders_arg a]" 1 1 g2] run
    obtain groups where "items = concat groups"
      "map order_id orders = [1..orders_arg a]"
      "list_all2 (order_items_ok (length ps)) orders groups"
      "list_all2 order_payment_ok orders payments"
      "map payment_id payments = [1 .. 1 + int (length [1..orders_arg a]) - 1]"
      by auto
    then show ?thesis unfolding upto_from_one by blast
  qed
  with eq uids pids show ?thesis by simp
qed

lemma generate_items_ok:
  assumes "generate a now1 now2 g = Inr (users, products, orders, items, payments)"
    and "ord \<in> set orders"
  shows "order_items_ok (length products) ord (items_of ord items)"
proof -
  from generate_structure[OF assms(1)] obtain groups where
    items: "items = concat groups" and ids: "map order_id orders = [1..orders_arg a]"
    and ok: "list_all2 (order_items_ok (length products)) orders groups"
    by blast
  have dist: "distinct (map order_id orders)" by (simp add: ids)
  have "list_all2 (\<lambda>x ys. \<forall>y \<in> set ys. oi_order_id y = order_id x) orders groups"
    by (rule list_all2_mono[OF ok]) (simp add: order_items_ok_def list_all_iff)
  from filter_concat_groups[OF this dist]
  have "list_all2 (\<lambda>x ys. items_of x items = ys) orders groups"
    by (simp add: items_of_def items)
  from list_all2_at_function[OF ok this assms(2)] show ?thesis .
qed

lemma generate_payment_ok:
  assumes "generate a now1 now2 g = Inr (users, products, orders, items, payments)"
    and "ord \<in> set orders"
  shows "\<exists>p. payments_of ord payments = [p] \<and> order_payment_ok ord p"
proof -
  from generate_structure[OF assms(1)] have
    ids: "map order_id orders = [1..orders_arg a]"
    and ok: "list_all2 order_payment_ok orders payments"
    by blast+
  have dist: "distinct (map order_id orders)" by (simp add: ids)
  have "\<exists>p. filter (\<lambda>p. pay_order_id p = order_id ord) payments = [p] \<and> order_payment_ok ord p"
    by (rule unique_partner[OF ok dist _ assms(2)]) (simp add: order_payment_ok_def)
  then show ?thesis by (simp add: payments_of_def)
qed

lemma generate_total:
  assumes "1 \<le> users_arg a" "1 \<le> products_arg a"
  shows "\<exists>ds. generate a now1 now2 g = Inr ds"
proof -
  obtain us g1 where us: "generate_users (users_arg a) now1 g = Inr (us, g1)"
    and uids: "map user_id us = [1..users_arg a]"
    using users_loop_total[of now1 "[1..users_arg a]" g] by (auto simp: generate_users_def)
  obtain ps g2 where ps: "generate_products (products_arg a) g1 = Inr (ps, g2)"
    and pids: "map product_id ps = [1..products_arg a]"
    and prices: "\<forall>p \<in> set ps. \<exists>v. 0 \<le> v \<and> v \<le> 1200 \<and> price p = money v"
    using products_loop_total[of "[1..products_arg a]" g1] by (auto simp: generate_products_def)
  from uids assms(1) have une: "us \<noteq> []" by (auto simp: upto_rec1)
  from pids assms(2) have pne: "ps \<noteq> []" by (auto simp: upto_rec1)
  have dist: "distinct (map product_id ps)" by (simp add: pids)
  from orders_loop_total[OF une pne prices dist, of now2 "[1..orders_arg a]" 1 1 g2]
  obtain orders groups payments where
    "orders_loop now2 us ps [1..orders_arg a] 1 1 g2 = Inr (orders, concat groups, payments)"
    by blast
  then show ?thesis by (simp add: generate_def generate_orders_def us ps)
qed

lemma generate_no_orders:
  assumes "orders_arg a < 1"
  shows "\<exists>users products. generate a now1 now2 g = Inr (users, products, [], [], [])"
proof -
  obtain us g1 where us: "generate_users (users_arg a) now1 g = Inr (us, g1)"
    using users_loop_total[of now1 "[1..users_arg a]" g] by (auto simp: generate_users_def)
  obtain ps g2 where ps: "generate_products (products_arg a) g1 = Inr (ps, g2)"
    using products_loop_total[of "[1..products_arg a]" g1] by (auto simp: generate_products_def)
  from assms show ?thesis by (simp add: generate_def generate_orders_def us ps)
qed

lemma generate_fails:
  assumes "1 \<le> orders_arg a" "users_arg a < 1 \<or> products_arg a < 1"
  shows "generate a now1 now2 g = Inl (if users_arg a < 1 then IndexError else ValueError)"
proof -
  obtain us g1 where us: "generate_users (users_arg a) now1 g = Inr (us, g1)"
    and uids: "map user_id us = [1..users_arg a]"
    using users_loop_total[of now1 "[1..users_arg a]" g] by (auto simp: generate_users_def)
  obtain ps g2 where ps: "generate_products (products_arg a) g1 = Inr (ps, g2)"
    and pids: "map product_id ps = [1..products_arg a]"
    using products_loop_total[of "[1..products_arg a]" g1] by (auto simp: generate_products_def)
  from assms(1) obtain oids where oids: "[1..orders_arg a] = 1 # oids"
    by (auto simp: upto_rec1)
  show ?thesis
  proof (cases "users_arg a < 1")
    case True
    with uids have "us = []" by simp
    then have "orders_loop now2 us ps (1 # oids) 1 1 g2 = Inl IndexError"
      by (simp only: orders_loop_no_users)
    with True show ?thesis
      by (simp add: generate_def generate_orders_def us ps oids del: orders_loop.simps)
  next
    case False
    with uids have une: "us \<noteq> []" by (auto simp: upto_rec1)
    from False assms(2) pids have "ps = []" by simp
    then have "orders_loop now2 us ps (1 # oids) 1 1 g2 = Inl ValueError"
      by (simp only: orders_loop_no_products[OF une])
    with False show ?thesis
      by (simp add: generate_def generate_orders_def us ps oids del: orders_loop.simps)
  qed
qed

subsection \<open>Concrete runs\<close>

text \<open>Evaluation of the model on numerals, by rewriting.\<close>

lemma floor_rat_numeral_divide:
  "\<lfloor>numeral a / numeral b :: rat\<rfloor> = numeral a div numeral b"
  using floor_divide_of_int_eq[of "numeral a" "numeral b", where ?'a = rat] by simp

lemma digit_chars:
  "digit_char 0 = CHR ''0''" "digit_char 1 = CHR ''1''" "digit_char 2 = CHR ''2''"
  "digit_char 3 = CHR ''3''" "digit_char 4 = CHR ''4''" "digit_char 5 = CHR ''5''"
  "digit_char 6 = CHR ''6''" "digit_char 7 = CHR ''7''" "digit_char 8 = CHR ''8''"
  "digit_char 9 = CHR ''9''" "digit_char (Suc 0) = CHR ''1''"
  by code_simp+

lemma randbelow_draws_at:
  "randbelow n (draws_at ds i) = ((if i < length ds then ds ! i else 0) mod n, draws_at ds (Suc i))"
  by (simp add: randbelow_def draws_at_def)

lemma random_draws_at:
  "random (draws_at ds i)
     = (of_nat ((if i < length ds then ds ! i else 0) mod 2 ^ 53) / 2 ^ 53, draws_at ds (Suc i))"
  by (simp add: random_def draws_at_def)

lemma sample_pool_numeral:
  "sample_pool pool (numeral n) g =
     (case randbelow (length pool) g of (j, g1) \<Rightarrow>
        (case sample_pool (butlast (pool[j := last pool])) (pred_numeral n) g1 of (rest, g2) \<Rightarrow>
           (pool ! j # rest, g2)))"
  by (simp add: numeral_eq_Suc)

lemmas eval_text = show_int_def show_nat.simps digit_chars Let_def floor_rat_numeral_divide

lemmas eval_random = draws_from_def randbelow_draws_at random_draws_at uniform_def randint_def
  choice_def sample_def choices_def random_date_def whole_seconds_def days_def hours_def
  seconds_def strftime_date_def strftime_datetime_def

lemma lower1: "lower ''Ava.Chen1@example.com'' = ''ava.chen1@example.com''"
  by code_simp

lemma lower2: "lower ''Ava.Thompson1@example.com'' = ''ava.thompson1@example.com''"
  by code_simp

lemmas eval_generate = generate_def generate_users_def generate_products_def generate_orders_def
  eval_random eval_text first_names_def last_names_def adjectives_def nouns_def categories_def
  money_def quantize_cents_def Decimal_def parse_nat_def is_digit_def digit_val_def upto.simps
  sample_pool_numeral

lemma example_run:
  "generate example_args (days 20000) (days 20000) (draws_from example_draws)
     = Inr (example_users, example_products, example_orders, example_items, example_payments)"
  by (simp add: eval_generate lower1 example_args_def example_draws_def example_users_def
      example_products_def example_orders_def example_items_def example_payments_def)

lemma single_run:
  "generate single_args (days 20000) (days 20000) (draws_from [])
     = Inr (single_users, single_products, single_orders, single_items, single_payments)"
  by (simp add: eval_generate lower2 single_args_def single_users_def
      single_products_def single_orders_def single_items_def single_payments_def)

subsection \<open>Order totals\<close>

lemma generated_amounts_bounded:
  assumes "generate a now1 now2 g = Inr (users, products, orders, items, payments)"
    and "ord \<in> set orders"
  shows "\<exists>s. sum_rounded (items_of ord items) = Inr s \<and> 0 \<le> s \<and> s \<le> 14400"
  using generate_items_ok[OF assms]
  by (auto simp: order_items_ok_def split: sum.splits)

text \<open>
  C1. In every generated dataset, each order's \<open>total_amount\<close> is the sum over the order
  items sharing its \<open>order_id\<close> of \<open>unit_price * quantity\<close>, each product rounded half-up
  to two decimals before summation, the sum rounded the same way: as a text it is that sum
  written by \<open>money\<close>, as a decimal it is the rounded sum.
\<close>

theorem order_total_is_rounded_item_sum:
  assumes "generate a now1 now2 g = Inr (users, products, orders, items, payments)"
  shows "\<forall>ord \<in> set orders. \<exists>s. sum_rounded (items_of ord items) = Inr s
           \<and> total_amount ord = money (round2 s)
           \<and> Decimal (total_amount ord) = Inr (round2 s)"
proof
  fix ord assume "ord \<in> set orders"
  from generate_items_ok[OF assms this] obtain s where
    s: "sum_rounded (items_of ord items) = Inr s" "round2 s = s" "total_amount ord = money s"
    by (auto simp: order_items_ok_def split: sum.splits)
  from s(3) have "Decimal (total_amount ord) = Inr (round2 s)"
    by (simp only: Decimal_money)
  with s show "\<exists>s. sum_rounded (items_of ord items) = Inr s
           \<and> total_amount ord = money (round2 s)
           \<and> Decimal (total_amount ord) = Inr (round2 s)"
    by auto
qed

lemma example_first_order_sum:
  "sum_rounded (items_of (hd example_orders) example_items) = Inr (2225 / 2)"
  by (simp add: example_orders_def example_items_def items_of_def Decimal_def parse_nat_def
      is_digit_def digit_val_def round2_def quantize_cents_def floor_rat_numeral_divide Let_def)

theorem order_total_is_rounded_item_sum_witness:
  "generate example_args (days 20000) (days 20000) (draws_from example_draws)
     = Inr (example_users, example_products, example_orders, example_items, example_payments)
   \<and> sum_rounded (items_of (hd example_orders) example_items) = Inr (2225 / 2)
   \<and> total_amount (hd example_orders) = money (round2 (2225 / 2))
   \<and> Decimal (total_amount (hd example_orders)) = Inr (round2 (2225 / 2))"
proof -
  have "hd example_orders \<in> set example_orders" by (simp add: example_orders_def)
  with order_total_is_rounded_item_sum[OF example_run]
  obtain s where s: "sum_rounded (items_of (hd example_orders) example_items) = Inr s"
    and t: "total_amount (hd example_orders) = money (round2 s)"
      "Decimal (total_amount (hd example_orders)) = Inr (round2 s)"
    by blast
  from s have "Inr s = (Inr (2225 / 2) :: error + rat)"
    by (simp only: example_first_order_sum)
  then have "s = 2225 / 2" by (simp only: sum.inject)
  with t example_first_order_sum example_run show ?thesis by (simp only: simp_thms)
qed

subsection \<open>Payments\<close>

text \<open>
  C4. In every generated dataset, for every order exactly one payment references it (the
  payments sharing its \<open>order_id\<close> are a single row), and that payment's \<open>amount\<close> is the
  order's \<open>total_amount\<close>, the same text.
\<close>

theorem one_payment_per_order_with_its_total:
  assumes "generate a now1 now2 g = Inr (users, products, orders, items, payments)"
  shows "\<forall>ord \<in> set orders. \<exists>p. payments_of ord payments = [p] \<and> amount p = total_amount ord"
proof
  fix ord assume "ord \<in> set orders"
  from generate_payment_ok[OF assms this]
  show "\<exists>p. payments_of ord payments = [p] \<and> amount p = total_amount ord"
    by (auto simp: order_payment_ok_def)
qed

theorem one_payment_per_order_with_its_total_witness:
  "generate example_args (days 20000) (days 20000) (draws_from example_draws)
     = Inr (example_users, example_products, example_orders, example_items, example_payments)
   \<and> payments_of (hd example_orders) example_payments = [hd example_payments]
   \<and> amount (hd example_payments) = total_amount (hd example_orders)"
proof -
  have "hd example_orders \<in> set example_orders" by (simp add: example_orders_def)
  with one_payment_per_order_with_its_total[OF example_run]
  obtain p where "payments_of (hd example_orders) example_payments = [p]"
    "amount p = total_amount (hd example_orders)"
    by blast
  moreover have "payments_of (hd example_orders) example_payments = [hd example_payments]"
    by (simp add: payments_of_def example_orders_def example_payments_def)
  ultimately show ?thesis using example_run by simp
qed

text \<open>
  C10. In every generated dataset the payment ids are 1, 2, ... up to the number of orders,
  and so are the order ids the payments reference, in the same positions: each payment's
  \<open>payment_id\<close> is the \<open>order_id\<close> of the order it pays.
\<close>

theorem payment_ids_are_order_ids:
  assumes "generate a now1 now2 g = Inr (users, products, orders, items, payments)"
  shows "map payment_id payments = [1..orders_arg a]
       \<and> map pay_order_id payments = [1..orders_arg a]
       \<and> map order_id orders = [1..orders_arg a]"
proof -
  from generate_structure[OF assms] have
    ids: "map order_id orders = [1..orders_arg a]"
    and ok: "list_all2 order_payment_ok orders payments"
    and pids: "map payment_id payments = [1..orders_arg a]"
    by blast+
  from ok have "list_all2 (\<lambda>ord p. order_id ord = pay_order_id p) orders payments"
    by (rule list_all2_mono) (simp add: order_payment_ok_def)
  then have "map order_id orders = map pay_order_id payments"
    by (induction rule: list_all2_induct) simp_all
  with ids pids show ?thesis by simp
qed

theorem payment_ids_are_order_ids_witness:
  "generate example_args (days 20000) (days 20000) (draws_from example_draws)
     = Inr (example_users, example_products, example_orders, example_items, example_payments)
   \<and> map payment_id example_payments = [1, 2]
   \<and> map pay_order_id example_payments = [1, 2]
   \<and> map order_id example_orders = [1, 2]"
  using payment_ids_are_order_ids[OF example_run] example_run
  by (simp add: example_args_def upto.simps)

text \<open>
  C7, as the code has it. \<open>order_date\<close> records the day only, \<open>paid_at\<close> the second that is
  1 to 48 whole hours after the order's time of day, which is not recorded. So in every
  generated dataset each payment's \<open>paid_at\<close> is later than the start of its order's
  recorded \<open>order_date\<close> by at least one hour and by less than 72 hours.
\<close>

theorem paid_at_after_order_date:
  assumes "generate a now1 now2 g = Inr (users, products, orders, items, payments)"
  shows "\<forall>ord \<in> set orders. \<forall>p \<in> set (payments_of ord payments).
           3600 \<le> seconds_between (order_date ord) (paid_at p)
           \<and> seconds_between (order_date ord) (paid_at p) < 72 * 3600"
proof (intro ballI)
  fix ord p assume ord: "ord \<in> set orders" and p: "p \<in> set (payments_of ord payments)"
  from generate_payment_ok[OF assms ord] p have "order_payment_ok ord p" by auto
  then show "3600 \<le> seconds_between (order_date ord) (paid_at p)
           \<and> seconds_between (order_date ord) (paid_at p) < 72 * 3600"
    by (simp add: order_payment_ok_def)
qed

theorem paid_at_after_order_date_witness:
  "generate example_args (days 20000) (days 20000) (draws_from example_draws)
     = Inr (example_users, example_products, example_orders, example_items, example_payments)
   \<and> 3600 \<le> seconds_between (order_date (example_orders ! 1)) (paid_at (example_payments ! 1))
   \<and> seconds_between (order_date (example_orders ! 1)) (paid_at (example_payments ! 1)) < 72 * 3600"
proof -
  have "example_orders ! 1 \<in> set example_orders" by (simp add: example_orders_def)
  moreover have "example_payments ! 1 \<in> set (payments_of (example_orders ! 1) example_payments)"
    by (simp add: payments_of_def example_orders_def example_payments_def)
  ultimately show ?thesis
    using paid_at_after_order_date[OF example_run] example_run by blast
qed

text \<open>
  C7, as the claim states it (between 1 and 48 hours after the recorded \<open>order_date\<close>),
  fails: the first order of the example is placed at 2024-06-06 23:00:00 (day 19880),
  recorded as \<open>2024-06-06\<close>, and paid 48 hours later, at \<open>2024-06-08 23:00:00\<close>
  (day 19882), which is 71 hours after the start of the recorded day.
\<close>

theorem paid_at_within_48_hours_counterexample:
  "generate example_args (days 20000) (days 20000) (draws_from example_draws)
     = Inr (example_users, example_products, example_orders, example_items, example_payments)
   \<and> payments_of (hd example_orders) example_payments = [hd example_payments]
   \<and> order_date (hd example_orders) = Date_Text 19880
   \<and> paid_at (hd example_payments) = Datetime_Text (86400 * 19882 + 23 * 3600)
   \<and> seconds_between (order_date (hd example_orders)) (paid_at (hd example_payments)) = 71 * 3600
   \<and> \<not> seconds_between (order_date (hd example_orders)) (paid_at (hd example_payments)) \<le> 48 * 3600"
  using example_run
  by (simp add: payments_of_def example_orders_def example_payments_def)

subsection \<open>Items per order\<close>

text \<open>
  C6. In every generated dataset with at least one product, every order has between 1 and
  4 order items, their \<open>product_id\<close>s pairwise distinct; with exactly one product every
  order has exactly one item.
\<close>

theorem orders_have_one_to_four_distinct_items:
  assumes "generate a now1 now2 g = Inr (users, products, orders, items, payments)"
    and "1 \<le> products_arg a"
  shows "\<forall>ord \<in> set orders.
           1 \<le> length (items_of ord items) \<and> length (items_of ord items) \<le> 4
           \<and> distinct (map oi_product_id (items_of ord items))
           \<and> (products_arg a = 1 \<longrightarrow> length (items_of ord items) = 1)"
proof
  fix ord assume ord: "ord \<in> set orders"
  from generate_structure[OF assms(1)] have "map product_id products = [1..products_arg a]"
    by blast
  then have "length products = length [1..products_arg a]" by (metis length_map)
  with assms(2) have n: "length products = nat (products_arg a)" by simp
  from generate_items_ok[OF assms(1) ord] have
    ok: "1 \<le> length (items_of ord items)"
      "length (items_of ord items) \<le> min 4 (length products)"
      "distinct (map oi_product_id (items_of ord items))"
    by (simp_all add: order_items_ok_def)
  from ok(1,2) n have "products_arg a = 1 \<longrightarrow> length (items_of ord items) = 1" by auto
  with ok show "1 \<le> length (items_of ord items) \<and> length (items_of ord items) \<le> 4
           \<and> distinct (map oi_product_id (items_of ord items))
           \<and> (products_arg a = 1 \<longrightarrow> length (items_of ord items) = 1)"
    by simp
qed

theorem orders_have_one_to_four_distinct_items_witness:
  "generate example_args (days 20000) (days 20000) (draws_from example_draws)
     = Inr (example_users, example_products, example_orders, example_items, example_payments)
   \<and> products_arg example_args = 2
   \<and> map oi_product_id (items_of (hd example_orders) example_items) = [2, 1]
   \<and> distinct (map oi_product_id (items_of (hd example_orders) example_items))
   \<and> generate single_args (days 20000) (days 20000) (draws_from [])
       = Inr (single_users, single_products, single_orders, single_items, single_payments)
   \<and> products_arg single_args = 1
   \<and> length (items_of (hd single_orders) single_items) = 1"
proof -
  have a: "hd example_orders \<in> set example_orders" by (simp add: example_orders_def)
  have b: "hd single_orders \<in> set single_orders" by (simp add: single_orders_def)
  have c: "1 \<le> products_arg example_args" "products_arg example_args = 2"
    by (simp_all add: example_args_def)
  have d: "1 \<le> products_arg single_args" "products_arg single_args = 1"
    by (simp_all add: single_args_def)
  have e: "map oi_product_id (items_of (hd example_orders) example_items) = [2, 1]"
    by (simp add: items_of_def example_orders_def example_items_def)
  from orders_have_one_to_four_distinct_items[OF example_run c(1)] a
  have "distinct (map oi_product_id (items_of (hd example_orders) example_items))" by blast
  moreover from orders_have_one_to_four_distinct_items[OF single_run d(1)] b d(2)
  have "length (items_of (hd single_orders) single_items) = 1" by blast
  ultimately show ?thesis using example_run single_run c(2) d(2) e by (simp only: simp_thms)
qed

subsection \<open>Generation without products\<close>

lemma generate_data_main_fails:
  assumes "generate a now1 now2 g = Inl e"
  shows "generate_data_main a now1 now2 g d = (Inl e, d\<lparr>dir_exists := True\<rparr>)"
  using assms by (simp add: generate_data_main_def)

lemma generate_data_main_succeeds:
  assumes "generate a now1 now2 g = Inr ds"
  shows "\<exists>out d'. generate_data_main a now1 now2 g d = (Inr out, d')"
  using assms by (cases ds) (auto simp: generate_data_main_def Let_def)

text \<open>
  C5, as the code has it. Without products and with at least one order to generate,
  \<open>main\<close> ends with an exception of the random library before any file is written (the
  output directory has been created, its files are untouched): IndexError of
  \<open>random.choice\<close> when there are no users either, otherwise ValueError of
  \<open>random.randint\<close> on the empty range 1..0. With no order to generate, or with at least
  one user and one product, \<open>main\<close> succeeds. The number of items of an order never
  exceeds the number of products: the upper end of the draw is \<open>min(4, len(products))\<close>.
\<close>

theorem generation_without_products:
  "(products_arg a < 1 \<and> 1 \<le> orders_arg a \<longrightarrow>
      generate_data_main a now1 now2 g d
        = (Inl (if users_arg a < 1 then IndexError else ValueError), d\<lparr>dir_exists := True\<rparr>))
   \<and> (orders_arg a < 1 \<or> (1 \<le> users_arg a \<and> 1 \<le> products_arg a) \<longrightarrow>
      (\<exists>out d'. generate_data_main a now1 now2 g d = (Inr out, d')))
   \<and> (\<forall>users products orders items payments.
        generate a now1 now2 g = Inr (users, products, orders, items, payments) \<longrightarrow>
        (\<forall>ord \<in> set orders. length (items_of ord items) \<le> min 4 (length products)))"
proof (intro conjI impI allI ballI)
  assume "products_arg a < 1 \<and> 1 \<le> orders_arg a"
  then have "generate a now1 now2 g = Inl (if users_arg a < 1 then IndexError else ValueError)"
    by (intro generate_fails) simp_all
  then show "generate_data_main a now1 now2 g d
        = (Inl (if users_arg a < 1 then IndexError else ValueError), d\<lparr>dir_exists := True\<rparr>)"
    by (rule generate_data_main_fails)
next
  assume "orders_arg a < 1 \<or> (1 \<le> users_arg a \<and> 1 \<le> products_arg a)"
  then have "\<exists>ds. generate a now1 now2 g = Inr ds"
    using generate_no_orders[of a now1 now2 g] generate_total[of a now1 now2 g] by blast
  then show "\<exists>out d'. generate_data_main a now1 now2 g d = (Inr out, d')"
    using generate_data_main_succeeds by blast
next
  fix users products orders items payments ord
  assume "generate a now1 now2 g = Inr (users, products, orders, items, payments)"
    and "ord \<in> set orders"
  from generate_items_ok[OF this]
  show "length (items_of ord items) \<le> min 4 (length products)"
    by (simp add: order_items_ok_def)
qed

theorem generation_without_products_witness:
  "generate_data_main \<lparr>users_arg = 1, products_arg = 0, orders_arg = 1, json_arg = False\<rparr>
       (days 20000) (days 20000) (draws_from []) no_output
     = (Inl ValueError, \<lparr>dir_exists = True, files = Map.empty\<rparr>)
   \<and> (\<exists>out d'. generate_data_main example_args (days 20000) (days 20000)
         (draws_from example_draws) no_output = (Inr out, d'))
   \<and> length (items_of (hd example_orders) example_items) \<le> min 4 (length example_products)"
proof -
  note t = generation_without_products
  have "generate_data_main \<lparr>users_arg = 1, products_arg = 0, orders_arg = 1, json_arg = False\<rparr>
       (days 20000) (days 20000) (draws_from []) no_output
     = (Inl ValueError, \<lparr>dir_exists = True, files = Map.empty\<rparr>)"
    using t[of "\<lparr>users_arg = 1, products_arg = 0, orders_arg = 1, json_arg = False\<rparr>"
          "days 20000" "days 20000" "draws_from []" no_output]
    by (simp add: no_output_def)
  moreover have "\<exists>out d'. generate_data_main example_args (days 20000) (days 20000)
         (draws_from example_draws) no_output = (Inr out, d')"
    using t[of example_args "days 20000" "days 20000" "draws_from example_draws" no_output]
    by (simp add: example_args_def)
  moreover have "length (items_of (hd example_orders) example_items) \<le> min 4 (length example_products)"
  proof -
    have "hd example_orders \<in> set example_orders" by (simp add: example_orders_def)
    with t[of example_args "days 20000" "days 20000" "draws_from example_draws" no_output]
      example_run show ?thesis by blast
  qed
  ultimately show ?thesis by (simp only: simp_thms)
qed

text \<open>
  C5, as the claim states it, fails. With one user, no product and one order to generate,
  \<open>main\<close> does fail before writing a file, but with the ValueError that
  \<open>random.randint(1, min(4, 0))\<close> raises, not with a configuration error. With one user,
  no product and no order to generate, \<open>main\<close> does not fail: it writes the five files.
\<close>

lemma no_orders_run:
  "generate \<lparr>users_arg = 1, products_arg = 0, orders_arg = 0, json_arg = False\<rparr>
       (days 20000) (days 20000) (draws_from [])
     = Inr (single_users, [], [], [], [])"
  by (simp add: eval_generate lower2 single_users_def)

theorem generation_without_products_counterexample:
  "generate_data_main \<lparr>users_arg = 1, products_arg = 0, orders_arg = 1, json_arg = False\<rparr>
       (days 20000) (days 20000) (draws_from []) no_output
     = (Inl ValueError, \<lparr>dir_exists = True, files = Map.empty\<rparr>)
   \<and> \<not> configuration_error ValueError
   \<and> generate_data_main \<lparr>users_arg = 1, products_arg = 0, orders_arg = 0, json_arg = False\<rparr>
       (days 20000) (days 20000) (draws_from []) no_output
     = (Inr ''Data written'',
        \<lparr>dir_exists = True,
         files = [''users.csv'' \<mapsto> Users_File single_users,
                  ''products.csv'' \<mapsto> Products_File [],
                  ''orders.csv'' \<mapsto> Orders_File [],
                  ''order_items.csv'' \<mapsto> Order_Items_File [],
                  ''payments.csv'' \<mapsto> Payments_File []]\<rparr>)"
proof -
  have "generate \<lparr>users_arg = 1, products_arg = 0, orders_arg = 1, json_arg = False\<rparr>
       (days 20000) (days 20000) (draws_from []) = Inl ValueError"
    using generate_fails[of "\<lparr>users_arg = 1, products_arg = 0, orders_arg = 1, json_arg = False\<rparr>"
        "days 20000" "days 20000" "draws_from []"]
    by simp
  then have "generate_data_main \<lparr>users_arg = 1, products_arg = 0, orders_arg = 1, json_arg = False\<rparr>
       (days 20000) (days 20000) (draws_from []) no_output
     = (Inl ValueError, \<lparr>dir_exists = True, files = Map.empty\<rparr>)"
    by (simp add: generate_data_main_fails no_output_def)
  moreover have "generate_data_main \<lparr>users_arg = 1, products_arg = 0, orders_arg = 0, json_arg = False\<rparr>
       (days 20000) (days 20000) (draws_from []) no_output
     = (Inr ''Data written'',
        \<lparr>dir_exists = True,
         files = [''users.csv'' \<mapsto> Users_File single_users,
                  ''products.csv'' \<mapsto> Products_File [],
                  ''orders.csv'' \<mapsto> Orders_File [],
                  ''order_items.csv'' \<mapsto> Order_Items_File [],
                  ''payments.csv'' \<mapsto> Payments_File []]\<rparr>)"
    by (simp add: generate_data_main_def no_orders_run write_file_def no_output_def)
  ultimately show ?thesis by simp
qed

section \<open>Verification of the report\<close>

subsection \<open>Column widths and formatted lines\<close>

lemma widen_row_ok:
  "idx + length cols \<le> length w \<Longrightarrow>
   \<exists>w'. widen_row w idx cols = Inr w' \<and> length w' = length w \<and>
     (\<forall>j < length w. w' ! j = (if idx \<le> j \<and> j < idx + length cols then max (w ! j) (length (cols ! (j - idx))) else w ! j))"
proof (induction cols arbitrary: w idx)
  case Nil
  then show ?case by simp
next
  case (Cons c cols)
  let ?w = "w[idx := max (w ! idx) (length c)]"
  from Cons.prems have lt: "idx < length w" by simp
  from Cons.prems have "Suc idx + length cols \<le> length ?w" by simp
  from Cons.IH[OF this] obtain w' where
    w': "widen_row ?w (Suc idx) cols = Inr w'" "length w' = length ?w"
    "\<forall>j < length ?w. w' ! j = (if Suc idx \<le> j \<and> j < Suc idx + length cols then max (?w ! j) (length (cols ! (j - Suc idx))) else ?w ! j)"
    by blast
  show ?case
    using lt w' by (auto simp: nth_list_update nth_Cons' Suc_diff_Suc not_less_eq_eq)
qed

lemma widen_row_length:
  "widen_row w idx cols = Inr w' \<Longrightarrow> idx \<le> length w \<Longrightarrow> length w' = length w \<and> idx + length cols \<le> length w"
  by (induction cols arbitrary: w idx) (fastforce split: if_splits)+

lemma Max_cons_max: "Max (set (max a b # xs)) = Max (set (a # b # (xs::nat list)))"
  by (cases "set xs = {}") (simp_all add: max.assoc)

lemma widen_row_error: "widen_row w idx cols = Inl e \<Longrightarrow> e = IndexError"
  by (induction cols arbitrary: w idx) (auto split: if_splits)

lemma widen_row_too_long:
  "idx \<le> length w \<Longrightarrow> length w < idx + length cols \<Longrightarrow> widen_row w idx cols = Inl IndexError"
  by (induction cols arbitrary: w idx) auto

lemma widen_rows_ok:
  "\<forall>r \<in> set rows. length r \<le> length w \<Longrightarrow>
   \<exists>w'. widen_rows w rows = Inr w' \<and> length w' = length w \<and>
     (\<forall>j < length w. w' ! j = Max (set (w ! j # map (\<lambda>r. length (r ! j)) (filter (\<lambda>r. j < length r) rows))))"
proof (induction rows arbitrary: w)
  case Nil
  then show ?case by simp
next
  case (Cons r rows)
  from Cons.prems have "0 + length r \<le> length w" by simp
  from widen_row_ok[OF this] obtain w1 where
    w1: "widen_row w 0 r = Inr w1" "length w1 = length w"
      "\<forall>j < length w. w1 ! j = (if j < length r then max (w ! j) (length (r ! j)) else w ! j)"
    by auto
  from Cons.prems w1 have "\<forall>r \<in> set rows. length r \<le> length w1" by simp
  from Cons.IH[OF this] obtain w' where
    w': "widen_rows w1 rows = Inr w'" "length w' = length w1"
      "\<forall>j < length w1. w' ! j = Max (set (w1 ! j # map (\<lambda>r. length (r ! j)) (filter (\<lambda>r. j < length r) rows)))"
    by blast
  have "w' ! j = Max (set (w ! j # map (\<lambda>r. length (r ! j)) (filter (\<lambda>r. j < length r) (r # rows))))"
    if "j < length w" for j
  proof -
    let ?xs = "map (\<lambda>r. length (r ! j)) (filter (\<lambda>r. j < length r) rows)"
    have a: "w' ! j = Max (set (w1 ! j # ?xs))" using w' w1 that by simp
    show ?thesis
    proof (cases "j < length r")
      case True
      then have "w1 ! j = max (w ! j) (length (r ! j))" using w1 that by simp
      then have "w' ! j = Max (set (w ! j # length (r ! j) # ?xs))"
        using a by (simp only: Max_cons_max)
      then show ?thesis using True by simp
    next
      case False
      then have "w1 ! j = w ! j" using w1 that by simp
      then show ?thesis using a False by simp
    qed
  qed
  then show ?case using w1 w' by simp
qed

lemma widen_rows_too_long:
  "\<exists>r \<in> set rows. length w < length r \<Longrightarrow> widen_rows w rows = Inl IndexError"
proof (induction rows arbitrary: w)
  case Nil
  then show ?case by simp
next
  case (Cons r rows)
  show ?case
  proof (cases "widen_row w 0 r")
    case (Inl e)
    then show ?thesis using widen_row_error[OF Inl] by simp
  next
    case (Inr w1)
    from widen_row_length[OF Inr] have l: "length w1 = length w" "length r \<le> length w" by simp_all
    with Cons.prems have "\<exists>r \<in> set rows. length w1 < length r" by auto
    from Cons.IH[OF this] show ?thesis using Inr by simp
  qed
qed

lemma fmt_cells_ok:
  "idx + length cols \<le> length w \<Longrightarrow>
   fmt_cells w idx cols = Inr (map (\<lambda>j. ljust (cols ! j) (w ! (idx + j))) [0..<length cols])"
proof (induction cols arbitrary: idx)
  case Nil
  then show ?case by simp
next
  case (Cons c cols)
  from Cons.prems have "Suc idx + length cols \<le> length w" by simp
  from Cons.IH[OF this] Cons.prems show ?case
    by (simp add: upt_conv_Cons map_Suc_upt [symmetric] del: upt_Suc)
qed

lemma fmt_row_ok:
  "length row \<le> length w \<Longrightarrow>
   fmt_row w row = Inr (join '' | '' (map (\<lambda>j. ljust (row ! j) (w ! j)) [0..<length row]))"
  by (simp add: fmt_row_def fmt_cells_ok)

lemma fmt_rows_ok:
  "\<forall>r \<in> set rows. length r \<le> length w \<Longrightarrow>
   fmt_rows w rows = Inr (map (\<lambda>row. join '' | '' (map (\<lambda>j. ljust (row ! j) (w ! j)) [0..<length row])) rows)"
  by (induction rows) (simp_all add: fmt_row_ok)

subsection \<open>The rendered table\<close>

text \<open>
  C9, as the code has it. For every list of headers and every list of rows in which no row
  has more cells than there are headers, \<open>format_table\<close> renders the table of the
  specification: every column as wide as the longest of its header and its rendered cells,
  every cell left-justified to that width, columns joined by \<open>" | "\<close>, and after the
  header line a divider with one run of dashes per column joined by \<open>"-+-"\<close>. A row
  with more cells than there are headers ends the call with IndexError.
\<close>

theorem format_table_renders_spec_table:
  "format_table hs rows =
     (if list_all (\<lambda>row. length row \<le> length hs) rows
      then Inr (spec_table hs rows) else Inl IndexError)"
proof (cases "list_all (\<lambda>row. length row \<le> length hs) rows")
  case False
  then have "\<exists>r \<in> set (map (map str) rows). length (map length hs) < length r"
    by (auto simp: list_all_iff not_le)
  from widen_rows_too_long[OF this] False show ?thesis
    by (simp add: format_table_def)
next
  case True
  let ?sr = "map (map str) rows"
  let ?w0 = "map length hs"
  from True have all: "\<forall>r \<in> set ?sr. length r \<le> length ?w0"
    by (auto simp: list_all_iff)
  from widen_rows_ok[OF all] obtain w where
    w: "widen_rows ?w0 ?sr = Inr w" "length w = length hs"
      "\<forall>j < length hs. w ! j = column_width hs ?sr j"
    by (auto simp: column_width_def)
  have wmap: "w = map (\<lambda>j. w ! j) [0..<length hs]"
    using w(2) map_nth[of w] by simp
  have m1: "map (\<lambda>j. replicate (w ! j) CHR ''-'') [0..<length hs]
          = map (\<lambda>j. replicate (column_width hs ?sr j) CHR ''-'') [0..<length hs]"
    using w(3) by auto
  have m2: "map (\<lambda>j. ljust (row ! j) (w ! j)) [0..<length row]
          = map (\<lambda>j. ljust (row ! j) (column_width hs ?sr j)) [0..<length row]"
    if "length row \<le> length hs" for row
    using w(3) that by auto
  have div: "join ''-+-'' (map (\<lambda>w. replicate w CHR ''-'') w) = spec_divider hs ?sr"
    unfolding spec_divider_def
    by (subst wmap) (simp add: comp_def m1)
  have head: "fmt_row w hs = Inr (spec_line hs ?sr hs)"
    using w(2) by (simp add: fmt_row_ok spec_line_def m2)
  have body: "fmt_rows w ?sr = Inr (map (spec_line hs ?sr) ?sr)"
  proof -
    have "\<forall>r \<in> set ?sr. length r \<le> length w" using all w(2) by simp
    from fmt_rows_ok[OF this] have
      "fmt_rows w ?sr = Inr (map (\<lambda>row. join '' | '' (map (\<lambda>j. ljust (row ! j) (w ! j)) [0..<length row])) ?sr)" .
    also have "map (\<lambda>row. join '' | '' (map (\<lambda>j. ljust (row ! j) (w ! j)) [0..<length row])) ?sr
        = map (spec_line hs ?sr) ?sr"
    proof (rule map_cong[OF refl])
      fix row assume "row \<in> set ?sr"
      with all have "length row \<le> length hs" by auto
      from m2[OF this] show "join '' | '' (map (\<lambda>j. ljust (row ! j) (w ! j)) [0..<length row])
          = spec_line hs ?sr row"
        by (simp only: spec_line_def)
    qed
    finally show ?thesis .
  qed
  show ?thesis using True w(1) div head body
    by (simp add: format_table_def spec_table_def Let_def)
qed


theorem format_table_renders_spec_table_witness:
  "format_table [''id'', ''name''] [[CInt 1, CText ''Ava Chen''], [CInt 12]]
     = Inr (''id | name    '' @ [CHR 0x0A] @ ''---+---------'' @ [CHR 0x0A]
            @ ''1  | Ava Chen'' @ [CHR 0x0A] @ ''12'')"
proof -
  have "spec_table [''id'', ''name''] [[CInt 1, CText ''Ava Chen''], [CInt 12]]
     = ''id | name    '' @ [CHR 0x0A] @ ''---+---------'' @ [CHR 0x0A]
            @ ''1  | Ava Chen'' @ [CHR 0x0A] @ ''12''"
    by code_simp
  with format_table_renders_spec_table
         [of "[''id'', ''name'']" "[[CInt 1, CText ''Ava Chen''], [CInt 12]]"]
  show ?thesis by simp
qed

text \<open>
  C9, as the claim states it (for every list of rows), fails: with the one header \<open>id\<close>
  and the row \<open>(1, 'x')\<close> the loop over the row reads \<open>widths[1]\<close> of a one-element
  list, and no table is rendered.
\<close>

theorem format_table_long_row_counterexample:
  "format_table [''id''] [[CInt 1, CText ''x'']] = Inl IndexError"
  by (simp add: format_table_def)

subsection \<open>The report without rows\<close>

lemma format_table_headers_only:
  "format_table headers [] =
     Inr (''user_id | name | order_id | product_name | quantity | unit_price | total_amount | payment_status | payment_method''
          @ [CHR 0x0A]
          @ ''--------+------+----------+--------------+----------+------------+--------------+----------------+---------------'')"
  by code_simp

lemma fetch_report_empty_db: "fetch_report printf2 empty_db = []"
  by (simp add: fetch_report_def empty_db_def)

text \<open>
  C8. When the query returns no rows, the report prints the no-data message, and what it
  prints is not the table that \<open>format_table\<close> renders for no rows (the header line and
  the divider).
\<close>

theorem no_rows_prints_no_data_message:
  "fetch_report printf2 s = [] \<Longrightarrow>
     run_queries_main printf2 (Some s) = Inr no_data_message
     \<and> run_queries_main printf2 (Some s) \<noteq> format_table headers []"
proof -
  assume empty: "fetch_report printf2 s = []"
  then have msg: "run_queries_main printf2 (Some s) = Inr no_data_message"
    by (simp add: run_queries_main_def)
  have "Inr no_data_message \<noteq> format_table headers []"
    unfolding format_table_headers_only by (simp add: no_data_message_def)
  with msg show ?thesis by simp
qed

theorem no_rows_prints_no_data_message_witness:
  "fetch_report (\<lambda>x::string. x) empty_db = []
     \<and> run_queries_main (\<lambda>x::string. x) (Some empty_db)
         = Inr ''No data found. Verify the database has been populated.''"
  using no_rows_prints_no_data_message [of "\<lambda>x::string. x" empty_db]
  by (simp add: fetch_report_empty_db no_data_message_def)

section \<open>Verification of the loader\<close>

lemma cleared_on_disk:
  "on_disk (clear_tables (ensure_tables \<lparr>on_disk = s0, working = s0\<rparr>)) = empty_db"
  by (simp add: clear_tables_def ensure_tables_def commit_def empty_db_def)

lemma executemany_needs_file:
  assumes "executemany ins (ebind (open_file dir path) f) c = Inr c'"
  shows "dir path \<noteq> None"
  using assms by (cases "dir path") (simp_all add: executemany_def open_file_def)

lemma load_all_needs_files:
  assumes "load_all to_float dir c = Inr c'"
  shows "dir ''users.csv'' \<noteq> None \<and> dir ''products.csv'' \<noteq> None \<and> dir ''orders.csv'' \<noteq> None
       \<and> dir ''order_items.csv'' \<noteq> None \<and> dir ''payments.csv'' \<noteq> None"
proof -
  from assms obtain c1 c2 c3 c4 where
    "executemany insert_user (load_users dir ''users.csv'') c = Inr c1"
    "executemany insert_product (load_products to_float dir ''products.csv'') c1 = Inr c2"
    "executemany insert_order (load_orders to_float dir ''orders.csv'') c2 = Inr c3"
    "executemany insert_order_item (load_order_items to_float dir ''order_items.csv'') c3 = Inr c4"
    "executemany insert_payment (load_payments to_float dir ''payments.csv'') c4 = Inr c'"
    unfolding load_all_def ebind_eq_Inr by blast
  then show ?thesis
    unfolding load_users_def load_products_def load_orders_def load_order_items_def
      load_payments_def
    by (blast dest: executemany_needs_file)
qed

text \<open>A missing directory is found before the store is touched.\<close>

lemma missing_directory_leaves_store:
  "ingest_main to_float None store = (Inl (SystemExit ''Data directory not found''), store)"
  by (simp add: ingest_main_def)

text \<open>
  Past the directory check every failure comes after \<open>clear_tables\<close> has committed: the
  store is left with five empty tables, whatever it held.
\<close>

lemma failed_load_leaves_empty_store:
  assumes "ingest_main to_float (Some dir) store = (Inl e, store')"
  shows "store' = Some empty_db"
  using assms
  by (auto simp: ingest_main_def Let_def cleared_on_disk split: sum.splits)

lemma missing_file_fails_load:
  assumes "path \<in> {''users.csv'', ''products.csv'', ''orders.csv'', ''order_items.csv'', ''payments.csv''}"
    and "dir path = None"
  shows "\<exists>e. ingest_main to_float (Some dir) store = (Inl e, Some empty_db)"
proof -
  let ?c0 = "clear_tables (ensure_tables
      \<lparr>on_disk = (case store of None \<Rightarrow> empty_db | Some s \<Rightarrow> s),
       working = (case store of None \<Rightarrow> empty_db | Some s \<Rightarrow> s)\<rparr>)"
  have "\<not> (\<exists>c'. load_all to_float dir ?c0 = Inr c')"
    using assms load_all_needs_files [of to_float dir ?c0] by auto
  then obtain e where "load_all to_float dir ?c0 = Inl e"
    by (cases "load_all to_float dir ?c0") auto
  then show ?thesis
    by (simp add: ingest_main_def Let_def cleared_on_disk)
qed

text \<open>
  C3. The export directory exists and holds four of the five files; \<open>users.csv\<close> is
  missing. The store holds one user. The load ends with FileNotFoundError, and the store
  is left with all five tables empty: the user row has been deleted.
\<close>

theorem missing_users_csv_empties_store:
  "ingest_main to_float
     (Some [''products.csv'' \<mapsto> [], ''orders.csv'' \<mapsto> [], ''order_items.csv'' \<mapsto> [],
            ''payments.csv'' \<mapsto> []])
     (Some \<lparr>users_t = [(1, ''Ava Chen'', ''ava.chen1@example.com'', ''555-200-1000'', ''2024-01-01'')],
            products_t = [], orders_t = [], order_items_t = [], payments_t = []\<rparr>)
   = (Inl FileNotFoundError,
      Some \<lparr>users_t = [], products_t = [], orders_t = [], order_items_t = [], payments_t = []\<rparr>)"
  by (simp add: ingest_main_def Let_def cleared_on_disk load_all_def load_users_def
      open_file_def executemany_def empty_db_def)

section \<open>Verification of the pipeline: generate, export, load, report\<close>

subsection \<open>Money texts through \<open>float()\<close> and \<open>printf\<close>\<close>

lemma round2_nonneg:
  assumes "0 \<le> v"
  shows "round2 v = of_nat (quantize_cents v) / 100"
  using assms by (simp add: round2_def)

lemma quantize_cents_of_nat: "quantize_cents (of_nat c / 100) = c"
  using quantize_cents_of_cents[of "int c"] by simp

lemma money_round2:
  assumes "0 \<le> v"
  shows "money (round2 v) = money v"
proof -
  have r: "round2 v = of_nat (quantize_cents v) / 100" by (rule round2_nonneg[OF assms])
  have q: "quantize_cents (round2 v) = quantize_cents v"
    unfolding r by (rule quantize_cents_of_nat)
  have "0 \<le> round2 v" unfolding r by simp
  then have "\<not> round2 v < 0" by simp
  with assms q show ?thesis by (simp add: money_def)
qed

lemma quantize_cents_le:
  assumes "0 \<le> v" "v \<le> 14400"
  shows "quantize_cents v \<le> 1440000"
proof -
  from assms have "\<bar>v\<bar> * 100 + 1 / 2 \<le> 1440000 + 1 / 2" by simp
  then have "\<lfloor>\<bar>v\<bar> * 100 + 1 / 2\<rfloor> \<le> \<lfloor>1440000 + 1 / 2 :: rat\<rfloor>" by (rule floor_mono)
  also have "\<lfloor>1440000 + 1 / 2 :: rat\<rfloor> = 1440000" by (rule floor_unique) simp_all
  finally have "\<lfloor>\<bar>v\<bar> * 100 + 1 / 2\<rfloor> \<le> 1440000" .
  then show ?thesis unfolding quantize_cents_def by linarith
qed

lemma round2_le_14400:
  assumes "0 \<le> v" "v \<le> 14400"
  shows "0 \<le> round2 v \<and> round2 v \<le> 14400"
proof -
  from quantize_cents_le[OF assms]
  have "(of_nat (quantize_cents v) :: rat) \<le> of_nat 1440000" by (simp only: of_nat_le_iff)
  then show ?thesis by (simp add: round2_nonneg[OF assms(1)])
qed

lemma storable_money:
  assumes "0 \<le> v" "v \<le> 14400"
  shows "storable (money v)"
  using round2_le_14400[OF assms] money_round2[OF assms(1)]
  by (simp add: storable_def Decimal_money)

lemma storable_cents:
  assumes "storable s"
  shows "\<exists>c. c \<le> 1440000 \<and> Decimal s = Inr (of_nat c / 100) \<and> s = money (of_nat c / 100)"
proof -
  from assms obtain v where v: "Decimal s = Inr v" "0 \<le> v" "v \<le> 14400" "money v = s"
    by (auto simp: storable_def split: sum.splits)
  from v(1,4) have "Inr v = (Inr (round2 v) :: error + rat)"
    using Decimal_money[of v] by simp
  then have "v = round2 v" by (simp only: sum.inject)
  define q where "q = quantize_cents v"
  from \<open>v = round2 v\<close> v(2) have c: "v = of_nat q / 100"
    unfolding q_def by (simp add: round2_nonneg)
  have "q \<le> 1440000" unfolding q_def by (rule quantize_cents_le[OF v(2,3)])
  moreover have "Decimal s = Inr (of_nat q / 100)" using v(1) by (simp only: c)
  moreover have "s = money (of_nat q / 100)" using v(4) by (simp only: c)
  ultimately show ?thesis by blast
qed

text \<open>
  The relative error of \<open>float()\<close> on an amount up to 14400.00 is far below what
  \<open>printf\<close> needs to write the amount back.
\<close>

lemma money_round_trip:
  assumes f: "float_contract to_float" and p: "printf_contract printf2" and s: "storable s"
  shows "\<exists>x. to_float s = Some x \<and> printf2 x = s"
proof -
  from storable_cents[OF s] obtain c where
    c: "c \<le> 1440000" "Decimal s = Inr (of_nat c / 100)" "s = money (of_nat c / 100)"
    by blast
  let ?v = "of_nat c / 100 :: rat"
  from c(1) have "(of_nat c :: rat) \<le> of_nat 1440000" by (simp only: of_nat_le_iff)
  then have v: "0 \<le> ?v" "?v \<le> 14400" by simp_all
  from f c(2) v obtain x where x: "to_float s = Some x" "\<bar>x - ?v\<bar> \<le> ?v / 2 ^ 53"
    unfolding float_contract_def by blast
  from v(2) have "?v / 2 ^ 53 \<le> 14400 / 2 ^ 53" by (simp add: divide_right_mono)
  also have "(14400 / 2 ^ 53 :: rat) \<le> 1 / 10 ^ 9" by simp
  finally have small: "?v / 2 ^ 53 \<le> 1 / 10 ^ 9" .
  with x(2) have near: "\<bar>x - ?v\<bar> \<le> 1 / 10 ^ 9" by linarith
  have "?v / 2 ^ 53 \<le> ?v" using v(1) by (simp add: field_simps)
  with x(2) have "0 \<le> x" by linarith
  with p c(1) near have "printf2 x = money ?v"
    unfolding printf_contract_def by blast
  with x(1) c(3) show ?thesis by simp
qed

lemma the_float_round_trip:
  assumes "float_contract to_float" "printf_contract printf2" "storable s"
  shows "py_float to_float s = Inr (the (to_float s))" and "printf2 (the (to_float s)) = s"
  using money_round_trip[OF assms] by (auto simp: py_float_def)

text \<open>The contracts can be met, also by a \<open>float()\<close> that errs.\<close>

lemma inexact_float_contract: "float_contract inexact_float"
  unfolding float_contract_def
proof (intro allI impI)
  fix s v assume a: "Decimal s = Inr v \<and> 0 \<le> v \<and> v \<le> 14400"
  then have "inexact_float s = Some (v + v / 2 ^ 53)" by (simp add: inexact_float_def)
  moreover have "\<bar>(v + v / 2 ^ 53) - v\<bar> \<le> v / 2 ^ 53" using a by simp
  ultimately show "\<exists>x. inexact_float s = Some x \<and> \<bar>x - v\<bar> \<le> v / 2 ^ 53" by blast
qed

lemma money_printf_contract: "printf_contract money"
  unfolding printf_contract_def
proof (intro allI impI)
  fix x :: rat and c :: nat
  assume a: "c \<le> 1440000 \<and> 0 \<le> x \<and> \<bar>x - of_nat c / 100\<bar> \<le> 1 / 10 ^ 9"
  then have x: "0 \<le> x" and near: "\<bar>x - of_nat c / 100\<bar> \<le> 1 / 10 ^ 9" by simp_all
  from near have n2: "\<bar>x - of_nat c / 100\<bar> \<le> 1 / 1000000000" by simp
  have "(of_nat c :: rat) \<le> \<bar>x\<bar> * 100 + 1 / 2" using n2 x by linarith
  then have lo: "of_int (int c) \<le> \<bar>x\<bar> * 100 + 1 / 2" by simp
  have "\<bar>x\<bar> * 100 + 1 / 2 < of_nat c + 1" using n2 x by linarith
  then have hi: "\<bar>x\<bar> * 100 + 1 / 2 < of_int (int c) + 1" by simp
  have "\<lfloor>\<bar>x\<bar> * 100 + 1 / 2\<rfloor> = int c" by (rule floor_unique[OF lo hi])
  then have q: "quantize_cents x = c" by (simp add: quantize_cents_def)
  have "quantize_cents (of_nat c / 100) = c" by (rule quantize_cents_of_nat)
  with q x show "money x = money (of_nat c / 100)" by (simp add: money_def)
qed

subsection \<open>Integers through \<open>str\<close> and \<open>int()\<close>\<close>

lemma hd_show_nat_digit: "is_digit (hd (show_nat n))"
  using show_nat_digits[of n] show_nat_nonempty[of n] by (cases "show_nat n") simp_all

lemma digit_not_sign: "is_digit c \<Longrightarrow> c \<noteq> CHR ''-'' \<and> c \<noteq> CHR ''+''"
  by (auto simp: is_digit_def)

lemma py_int_show_int: "py_int (show_int i) = Inr i"
proof (cases "i < 0")
  case True
  then show ?thesis
    using show_nat_digits[of "nat (- i)"] show_nat_nonempty[of "nat (- i)"]
    by (simp add: py_int_def show_int_def parse_show_nat)
next
  case False
  from digit_not_sign[OF hd_show_nat_digit[of "nat i"]]
  have "hd (show_nat (nat i)) \<noteq> CHR ''-''" "hd (show_nat (nat i)) \<noteq> CHR ''+''" by simp_all
  with False show ?thesis
    using show_nat_digits[of "nat i"] show_nat_nonempty[of "nat i"]
    by (simp add: py_int_def show_int_def parse_show_nat)
qed

subsection \<open>What the generator establishes for the loader\<close>

lemma choice_member:
  assumes "choice seq g = Inr (x, g')"
  shows "x \<in> set seq"
proof (cases "seq = []")
  case True
  with assms show ?thesis by (simp add: choice_empty)
next
  case False
  from choice_total[OF False, of g] assms show ?thesis by auto
qed

lemma upto_append_lengths:
  "[n .. n + int a - 1] @ [n + int a .. n + int a + int b - 1] = [n .. n + int (a + b) - 1]"
proof (cases a)
  case 0
  then show ?thesis by simp
next
  case (Suc a')
  have "[n .. n + int a + int b - 1] = [n .. n + int a - 1] @ [n + int a - 1 + 1 .. n + int a + int b - 1]"
    by (rule upto_split2) (simp_all add: Suc)
  then show ?thesis by (simp add: add.assoc)
qed

lemma items_loop_fields:
  assumes "items_loop oid ps lt nid g = Inr (its, lt', nid', g')"
    and "\<forall>p \<in> set ps. \<exists>v. 0 \<le> v \<and> v \<le> 1200 \<and> price p = money v"
  shows "length its = length ps
     \<and> map order_item_id its = [nid .. nid + int (length ps) - 1]
     \<and> map oi_product_id its = map product_id ps
     \<and> (\<forall>it \<in> set its. storable (unit_price it))"
  using assms
proof (induction ps arbitrary: lt nid g its lt' nid' g')
  case Nil
  then show ?case by auto
next
  case (Cons p ps)
  from Cons.prems(1) obtain qty g1 u rest where
    2: "Decimal (price p) = Inr u"
    and 3: "items_loop oid ps (lt + u * of_int qty) (nid + 1) g1 = Inr (rest, lt', nid', g')"
    and its: "its = \<lparr>order_item_id = nid, oi_order_id = oid, oi_product_id = product_id p,
                quantity = qty, unit_price = money u\<rparr> # rest"
    by (auto simp: ebind_eq_Inr)
  from Cons.prems(2) obtain v where v: "0 \<le> v" "v \<le> 1200" "price p = money v" by auto
  from 2 v(3) have u: "u = round2 v" by (simp add: Decimal_money)
  from round2_bounds[OF v(1,2)] have "0 \<le> u" "u \<le> 14400" unfolding u by simp_all
  then have st: "storable (money u)" by (rule storable_money)
  from Cons.prems(2) have "\<forall>p \<in> set ps. \<exists>v. 0 \<le> v \<and> v \<le> 1200 \<and> price p = money v" by simp
  from Cons.IH[OF 3 this] have
    len: "length rest = length ps"
    and ids: "map order_item_id rest = [nid + 1 .. nid + 1 + int (length ps) - 1]"
    and pids: "map oi_product_id rest = map product_id ps"
    and sts: "\<forall>it \<in> set rest. storable (unit_price it)"
    by blast+
  have "[nid .. nid + int (length (p # ps)) - 1] = nid # [nid + 1 .. nid + int (length (p # ps)) - 1]"
    using upto_rec1[of nid "nid + int (length (p # ps)) - 1"] by simp
  also have "nid + int (length (p # ps)) - 1 = nid + 1 + int (length ps) - 1" by simp
  finally have ids': "map order_item_id its = [nid .. nid + int (length (p # ps)) - 1]"
    using ids its by simp
  from len its have a: "length its = length (p # ps)" by simp
  from pids its have b: "map oi_product_id its = map product_id (p # ps)" by simp
  from sts st its have c: "\<forall>it \<in> set its. storable (unit_price it)" by simp
  from a ids' b c show ?case by blast
qed

lemma orders_loop_fields:
  assumes "orders_loop today users products oids nid pid g = Inr (orders, items, payments)"
    and "\<forall>p \<in> set products. \<exists>v. 0 \<le> v \<and> v \<le> 1200 \<and> price p = money v"
  shows "(\<forall>ord \<in> set orders. o_user_id ord \<in> user_id ` set users)
     \<and> (\<forall>it \<in> set items. oi_product_id it \<in> product_id ` set products \<and> storable (unit_price it))
     \<and> map order_item_id items = [nid .. nid + int (length items) - 1]"
  using assms(1)
proof (induction oids arbitrary: nid pid g orders items payments)
  case Nil
  then show ?case by auto
next
  case (Cons oid oids)
  from Cons.prems obtain user g1 order_dt k g3 chosen g4 new_items line_total nid2 g5 h g8
      orders' items' payments' stat payment_method where
    1: "choice users g = Inr (user, g1)"
    and 4: "sample products k g3 = Inr (chosen, g4)"
    and 5: "items_loop oid chosen 0 nid g4 = Inr (new_items, line_total, nid2, g5)"
    and 9: "orders_loop today users products oids nid2 (pid + 1) g8 = Inr (orders', items', payments')"
    and orders: "orders = \<lparr>order_id = oid, o_user_id = user_id user,
         order_date = strftime_date order_dt, total_amount = money line_total\<rparr> # orders'"
    and items: "items = new_items @ items'"
    by (auto simp: ebind_eq_Inr)
  from choice_member[OF 1] have user: "user_id user \<in> user_id ` set users" by simp
  from sample_Inr[OF 4] have "mset chosen \<subseteq># mset products" by simp
  then have sub: "set chosen \<subseteq> set products" by (metis set_mset_mono set_mset_mset)
  with assms(2) have cprices: "\<forall>p \<in> set chosen. \<exists>v. 0 \<le> v \<and> v \<le> 1200 \<and> price p = money v"
    by blast
  from items_loop_total[OF cprices, of oid 0 nid g4] 5
  have nid2: "nid2 = nid + int (length chosen)" by auto
  from items_loop_fields[OF 5 cprices] have
    len: "length new_items = length chosen"
    and ids: "map order_item_id new_items = [nid .. nid + int (length chosen) - 1]"
    and pids: "map oi_product_id new_items = map product_id chosen"
    and sts: "\<forall>it \<in> set new_items. storable (unit_price it)"
    by blast+
  from Cons.IH[OF 9] have
    users': "\<forall>ord \<in> set orders'. o_user_id ord \<in> user_id ` set users"
    and items': "\<forall>it \<in> set items'. oi_product_id it \<in> product_id ` set products \<and> storable (unit_price it)"
    and ids': "map order_item_id items' = [nid2 .. nid2 + int (length items') - 1]"
    by blast+
  have "set (map oi_product_id new_items) \<subseteq> product_id ` set products"
    unfolding pids using sub by auto
  then have new_pids: "\<forall>it \<in> set new_items. oi_product_id it \<in> product_id ` set products"
    by auto
  have a: "\<forall>ord \<in> set orders. o_user_id ord \<in> user_id ` set users"
    using users' user orders by simp
  have b: "\<forall>it \<in> set items. oi_product_id it \<in> product_id ` set products \<and> storable (unit_price it)"
    using items' new_pids sts items by auto
  have "map order_item_id items
      = [nid .. nid + int (length new_items) - 1]
        @ [nid + int (length new_items) .. nid + int (length new_items) + int (length items') - 1]"
    using ids ids' by (simp add: items nid2 len)
  also have "\<dots> = [nid .. nid + int (length new_items + length items') - 1]"
    by (rule upto_append_lengths)
  finally have c: "map order_item_id items = [nid .. nid + int (length items) - 1]"
    by (simp add: items)
  from a b c show ?case by blast
qed

lemma generate_fields:
  assumes "generate a now1 now2 g = Inr (users, products, orders, items, payments)"
  shows "(\<forall>p \<in> set products. storable (price p))
     \<and> (\<forall>ord \<in> set orders. o_user_id ord \<in> user_id ` set users \<and> storable (total_amount ord))
     \<and> (\<forall>it \<in> set items. oi_product_id it \<in> product_id ` set products
           \<and> oi_order_id it \<in> order_id ` set orders \<and> storable (unit_price it))
     \<and> map order_item_id items = [1 .. int (length items)]
     \<and> (\<forall>p \<in> set payments. pay_order_id p \<in> order_id ` set orders \<and> storable (amount p))"
proof -
  obtain us g1 where us: "generate_users (users_arg a) now1 g = Inr (us, g1)"
    using users_loop_total[of now1 "[1..users_arg a]" g] by (auto simp: generate_users_def)
  obtain ps g2 where ps: "generate_products (products_arg a) g1 = Inr (ps, g2)"
    and prices: "\<forall>p \<in> set ps. \<exists>v. 0 \<le> v \<and> v \<le> 1200 \<and> price p = money v"
    using products_loop_total[of "[1..products_arg a]" g1] by (auto simp: generate_products_def)
  from assms us ps have eq: "users = us" "products = ps"
    and run: "orders_loop now2 us ps [1..orders_arg a] 1 1 g2 = Inr (orders, items, payments)"
    by (auto simp: generate_def generate_orders_def ebind_eq_Inr)
  from generate_structure[OF assms] obtain groups where
    items: "items = concat groups"
    and items_ok: "list_all2 (order_items_ok (length products)) orders groups"
    and pays_ok: "list_all2 order_payment_ok orders payments"
    by blast
  have total: "storable (total_amount ord)" if "ord \<in> set orders" for ord
  proof -
    from generate_items_ok[OF assms that] obtain s where
      "0 \<le> s" "s \<le> 14400" "total_amount ord = money s"
      by (auto simp: order_items_ok_def split: sum.splits)
    then show ?thesis by (simp add: storable_money)
  qed
  have p1: "\<forall>p \<in> set products. storable (price p)"
  proof
    fix p assume "p \<in> set products"
    with prices eq obtain v where "0 \<le> v" "v \<le> 1200" "price p = money v" by auto
    then show "storable (price p)" by (simp add: storable_money)
  qed
  from orders_loop_fields[OF run prices] have
    f1: "\<forall>ord \<in> set orders. o_user_id ord \<in> user_id ` set users"
    and f2: "\<forall>it \<in> set items. oi_product_id it \<in> product_id ` set products \<and> storable (unit_price it)"
    and f3: "map order_item_id items = [1 .. 1 + int (length items) - 1]"
    unfolding eq by blast+
  have p2: "\<forall>ord \<in> set orders. o_user_id ord \<in> user_id ` set users \<and> storable (total_amount ord)"
    using f1 total by blast
  have own: "oi_order_id it \<in> order_id ` set orders" if "it \<in> set items" for it
  proof -
    from that items obtain grp where grp: "grp \<in> set groups" "it \<in> set grp" by auto
    from list_all2_partner[OF items_ok grp(1)] obtain ord where
      "ord \<in> set orders" "order_items_ok (length products) ord grp" by blast
    with grp(2) show ?thesis by (auto simp: order_items_ok_def list_all_iff)
  qed
  have p3: "\<forall>it \<in> set items. oi_product_id it \<in> product_id ` set products
           \<and> oi_order_id it \<in> order_id ` set orders \<and> storable (unit_price it)"
    using f2 own by blast
  have p4: "map order_item_id items = [1 .. int (length items)]" using f3 by simp
  have p5: "\<forall>p \<in> set payments. pay_order_id p \<in> order_id ` set orders \<and> storable (amount p)"
  proof
    fix p assume "p \<in> set payments"
    from list_all2_partner[OF pays_ok this] obtain ord where
      ord: "ord \<in> set orders" "order_payment_ok ord p" by blast
    with total[OF ord(1)] show "pay_order_id p \<in> order_id ` set orders \<and> storable (amount p)"
      by (auto simp: order_payment_ok_def)
  qed
  from p1 p2 p3 p4 p5 show ?thesis by blast
qed

subsection \<open>The files the loader finds\<close>

lemma exported_generated:
  assumes "generate a now1 now2 g = Inr (users, products, orders, items, payments)"
  shows "\<exists>dir. exported (snd (generate_data_main a now1 now2 g d)) = Some dir
     \<and> dir ''users.csv'' = Some (map user_row users)
     \<and> dir ''products.csv'' = Some (map product_row products)
     \<and> dir ''orders.csv'' = Some (map order_row orders)
     \<and> dir ''order_items.csv'' = Some (map order_item_row items)
     \<and> dir ''payments.csv'' = Some (map payment_row payments)"
  using assms
  by (simp add: generate_data_main_def exported_def write_file_def csv_paths_def Let_def)

lemma py_float_storable:
  assumes "float_contract to_float" "storable s"
  shows "py_float to_float s = Inr (the (to_float s))"
proof -
  from assms(2) obtain v where "Decimal s = Inr v" "0 \<le> v" "v \<le> 14400"
    by (auto simp: storable_def split: sum.splits)
  with assms(1) obtain x where "to_float s = Some x"
    unfolding float_contract_def by blast
  then show ?thesis by (simp add: py_float_def)
qed

lemma load_users_rows:
  assumes "dir path = Some (map user_row users)"
  shows "load_users dir path = Inr (map (\<lambda>u. Inr (user_tuple u)) users)"
  using assms
  by (simp add: load_users_def open_file_def field_def user_row_def user_tuple_def py_int_show_int)

lemma load_products_rows:
  assumes "dir path = Some (map product_row products)" "float_contract to_float"
    and "\<forall>p \<in> set products. storable (price p)"
  shows "load_products to_float dir path = Inr (map (\<lambda>p. Inr (product_tuple to_float p)) products)"
  using assms
  by (simp add: load_products_def open_file_def field_def product_row_def product_tuple_def
      py_int_show_int py_float_storable)

lemma load_orders_rows:
  assumes "dir path = Some (map order_row orders)" "float_contract to_float"
    and "\<forall>ord \<in> set orders. storable (total_amount ord)"
  shows "load_orders to_float dir path = Inr (map (\<lambda>ord. Inr (order_tuple to_float ord)) orders)"
  using assms
  by (simp add: load_orders_def open_file_def field_def order_row_def order_tuple_def
      py_int_show_int py_float_storable)

lemma load_order_items_rows:
  assumes "dir path = Some (map order_item_row items)" "float_contract to_float"
    and "\<forall>it \<in> set items. storable (unit_price it)"
  shows "load_order_items to_float dir path
     = Inr (map (\<lambda>it. Inr (order_item_tuple to_float it)) items)"
  using assms
  by (simp add: load_order_items_def open_file_def field_def order_item_row_def
      order_item_tuple_def py_int_show_int py_float_storable)

lemma load_payments_rows:
  assumes "dir path = Some (map payment_row payments)" "float_contract to_float"
    and "\<forall>p \<in> set payments. storable (amount p)"
  shows "load_payments to_float dir path
     = Inr (map (\<lambda>p. Inr (payment_tuple to_float p)) payments)"
  using assms
  by (simp add: load_payments_def open_file_def field_def payment_row_def payment_tuple_def
      py_int_show_int py_float_storable)

subsection \<open>Inserting rows that keep the constraints\<close>

lemma insert_users_ok:
  assumes "distinct (map fst rows)" "set (map fst rows) \<inter> set (map fst (users_t s)) = {}"
  shows "insert_rows insert_user (map Inr rows) s = Inr (s\<lparr>users_t := users_t s @ rows\<rparr>)"
  using assms
proof (induction rows arbitrary: s)
  case Nil
  show ?case by simp
next
  case (Cons r rows)
  let ?s = "s\<lparr>users_t := users_t s @ [r]\<rparr>"
  from Cons.prems have 1: "insert_user r s = Inr ?s" by (simp add: insert_user_def)
  from Cons.prems have "distinct (map fst rows)"
    "set (map fst rows) \<inter> set (map fst (users_t ?s)) = {}" by auto
  from Cons.IH[OF this] show ?case by (simp add: 1)
qed

lemma insert_products_ok:
  assumes "distinct (map fst rows)" "set (map fst rows) \<inter> set (map fst (products_t s)) = {}"
  shows "insert_rows insert_product (map Inr rows) s = Inr (s\<lparr>products_t := products_t s @ rows\<rparr>)"
  using assms
proof (induction rows arbitrary: s)
  case Nil
  show ?case by simp
next
  case (Cons r rows)
  let ?s = "s\<lparr>products_t := products_t s @ [r]\<rparr>"
  from Cons.prems have 1: "insert_product r s = Inr ?s" by (simp add: insert_product_def)
  from Cons.prems have "distinct (map fst rows)"
    "set (map fst rows) \<inter> set (map fst (products_t ?s)) = {}" by auto
  from Cons.IH[OF this] show ?case by (simp add: 1)
qed

lemma insert_orders_ok:
  assumes "distinct (map fst rows)" "set (map fst rows) \<inter> set (map fst (orders_t s)) = {}"
    and "\<forall>r \<in> set rows. fst (snd r) \<in> set (map fst (users_t s))"
  shows "insert_rows insert_order (map Inr rows) s = Inr (s\<lparr>orders_t := orders_t s @ rows\<rparr>)"
  using assms
proof (induction rows arbitrary: s)
  case Nil
  show ?case by simp
next
  case (Cons r rows)
  let ?s = "s\<lparr>orders_t := orders_t s @ [r]\<rparr>"
  from Cons.prems have 1: "insert_order r s = Inr ?s" by (simp add: insert_order_def)
  from Cons.prems have "distinct (map fst rows)"
    "set (map fst rows) \<inter> set (map fst (orders_t ?s)) = {}"
    "\<forall>r \<in> set rows. fst (snd r) \<in> set (map fst (users_t ?s))" by auto
  from Cons.IH[OF this] show ?case by (simp add: 1)
qed

lemma insert_order_items_ok:
  assumes "distinct (map fst rows)" "set (map fst rows) \<inter> set (map fst (order_items_t s)) = {}"
    and "\<forall>r \<in> set rows. fst (snd r) \<in> set (map fst (orders_t s))"
    and "\<forall>r \<in> set rows. fst (snd (snd r)) \<in> set (map fst (products_t s))"
  shows "insert_rows insert_order_item (map Inr rows) s
     = Inr (s\<lparr>order_items_t := order_items_t s @ rows\<rparr>)"
  using assms
proof (induction rows arbitrary: s)
  case Nil
  show ?case by simp
next
  case (Cons r rows)
  let ?s = "s\<lparr>order_items_t := order_items_t s @ [r]\<rparr>"
  from Cons.prems have 1: "insert_order_item r s = Inr ?s" by (simp add: insert_order_item_def)
  from Cons.prems have "distinct (map fst rows)"
    "set (map fst rows) \<inter> set (map fst (order_items_t ?s)) = {}"
    "\<forall>r \<in> set rows. fst (snd r) \<in> set (map fst (orders_t ?s))"
    "\<forall>r \<in> set rows. fst (snd (snd r)) \<in> set (map fst (products_t ?s))" by auto
  from Cons.IH[OF this] show ?case by (simp add: 1)
qed

lemma insert_payments_ok:
  assumes "distinct (map fst rows)" "set (map fst rows) \<inter> set (map fst (payments_t s)) = {}"
    and "\<forall>r \<in> set rows. fst (snd r) \<in> set (map fst (orders_t s))"
  shows "insert_rows insert_payment (map Inr rows) s = Inr (s\<lparr>payments_t := payments_t s @ rows\<rparr>)"
  using assms
proof (induction rows arbitrary: s)
  case Nil
  show ?case by simp
next
  case (Cons r rows)
  let ?s = "s\<lparr>payments_t := payments_t s @ [r]\<rparr>"
  from Cons.prems have 1: "insert_payment r s = Inr ?s" by (simp add: insert_payment_def)
  from Cons.prems have "distinct (map fst rows)"
    "set (map fst rows) \<inter> set (map fst (payments_t ?s)) = {}"
    "\<forall>r \<in> set rows. fst (snd r) \<in> set (map fst (orders_t ?s))" by auto
  from Cons.IH[OF this] show ?case by (simp add: 1)
qed

subsection \<open>Loading a generated dataset\<close>

lemma cleared_working:
  "working (clear_tables (ensure_tables \<lparr>on_disk = s0, working = s0\<rparr>)) = empty_db"
  by (simp add: clear_tables_def ensure_tables_def commit_def empty_db_def)

lemma map_Inr_comp: "map (\<lambda>x. Inr (f x)) xs = map Inr (map f xs)"
  by simp

lemma load_all_generated:
  assumes gen: "generate a now1 now2 g = Inr (users, products, orders, items, payments)"
    and f: "float_contract to_float"
    and dir: "dir ''users.csv'' = Some (map user_row users)"
      "dir ''products.csv'' = Some (map product_row products)"
      "dir ''orders.csv'' = Some (map order_row orders)"
      "dir ''order_items.csv'' = Some (map order_item_row items)"
      "dir ''payments.csv'' = Some (map payment_row payments)"
    and c: "working c = empty_db"
  shows "load_all to_float dir c
     = Inr (c\<lparr>working := loaded_db to_float users products orders items payments\<rparr>)"
proof -
  from generate_structure[OF gen] have
    uids: "map user_id users = [1..users_arg a]"
    and pids: "map product_id products = [1..products_arg a]"
    and oids: "map order_id orders = [1..orders_arg a]"
    and payids: "map payment_id payments = [1..orders_arg a]"
    by blast+
  from generate_fields[OF gen] have
    prices: "\<forall>p \<in> set products. storable (price p)"
    and ords: "\<forall>ord \<in> set orders. o_user_id ord \<in> user_id ` set users \<and> storable (total_amount ord)"
    and its: "\<forall>it \<in> set items. oi_product_id it \<in> product_id ` set products
           \<and> oi_order_id it \<in> order_id ` set orders \<and> storable (unit_price it)"
    and iids: "map order_item_id items = [1 .. int (length items)]"
    and pays: "\<forall>p \<in> set payments. pay_order_id p \<in> order_id ` set orders \<and> storable (amount p)"
    by blast+
  let ?U = "map user_tuple users"
  let ?P = "map (product_tuple to_float) products"
  let ?O = "map (order_tuple to_float) orders"
  let ?I = "map (order_item_tuple to_float) items"
  let ?Y = "map (payment_tuple to_float) payments"
  have fU: "map fst ?U = map user_id users" by (simp add: user_tuple_def)
  have fP: "map fst ?P = map product_id products" by (simp add: product_tuple_def)
  have fO: "map fst ?O = map order_id orders" by (simp add: order_tuple_def)
  have fI: "map fst ?I = map order_item_id items" by (simp add: order_item_tuple_def)
  have fY: "map fst ?Y = map payment_id payments" by (simp add: payment_tuple_def)
  let ?s1 = "empty_db\<lparr>users_t := ?U\<rparr> :: rat db"
  let ?s2 = "?s1\<lparr>products_t := ?P\<rparr>"
  let ?s3 = "?s2\<lparr>orders_t := ?O\<rparr>"
  let ?s4 = "?s3\<lparr>order_items_t := ?I\<rparr>"
  let ?s5 = "?s4\<lparr>payments_t := ?Y\<rparr>"
  have dU: "distinct (map fst ?U)" unfolding fU uids by simp
  have dP: "distinct (map fst ?P)" unfolding fP pids by simp
  have dO: "distinct (map fst ?O)" unfolding fO oids by simp
  have dI: "distinct (map fst ?I)" unfolding fI iids by simp
  have dY: "distinct (map fst ?Y)" unfolding fY payids by simp
  have e1: "set (map fst ?U) \<inter> set (map fst (users_t (empty_db :: rat db))) = {}"
    by (simp add: empty_db_def)
  have 1: "insert_rows insert_user (map Inr ?U) empty_db = Inr ?s1"
    using insert_users_ok[OF dU e1] by (simp add: empty_db_def)
  have e2: "set (map fst ?P) \<inter> set (map fst (products_t ?s1)) = {}"
    by (simp add: empty_db_def)
  have 2: "insert_rows insert_product (map Inr ?P) ?s1 = Inr ?s2"
    using insert_products_ok[OF dP e2] by (simp add: empty_db_def)
  have e3: "set (map fst ?O) \<inter> set (map fst (orders_t ?s2)) = {}"
    by (simp add: empty_db_def)
  have k3: "\<forall>r \<in> set ?O. fst (snd r) \<in> set (map fst (users_t ?s2))"
    using ords by (simp add: order_tuple_def user_tuple_def empty_db_def image_iff)
  have 3: "insert_rows insert_order (map Inr ?O) ?s2 = Inr ?s3"
    using insert_orders_ok[OF dO e3 k3] by (simp add: empty_db_def)
  have e4: "set (map fst ?I) \<inter> set (map fst (order_items_t ?s3)) = {}"
    by (simp add: empty_db_def)
  have k4: "\<forall>r \<in> set ?I. fst (snd r) \<in> set (map fst (orders_t ?s3))"
    using its by (simp add: order_item_tuple_def order_tuple_def empty_db_def image_iff)
  have k4': "\<forall>r \<in> set ?I. fst (snd (snd r)) \<in> set (map fst (products_t ?s3))"
    using its by (simp add: order_item_tuple_def product_tuple_def empty_db_def image_iff)
  have 4: "insert_rows insert_order_item (map Inr ?I) ?s3 = Inr ?s4"
    using insert_order_items_ok[OF dI e4 k4 k4'] by (simp add: empty_db_def)
  have e5: "set (map fst ?Y) \<inter> set (map fst (payments_t ?s4)) = {}"
    by (simp add: empty_db_def)
  have k5: "\<forall>r \<in> set ?Y. fst (snd r) \<in> set (map fst (orders_t ?s4))"
    using pays by (simp add: payment_tuple_def order_tuple_def empty_db_def image_iff)
  have 5: "insert_rows insert_payment (map Inr ?Y) ?s4 = Inr ?s5"
    using insert_payments_ok[OF dY e5 k5] by (simp add: empty_db_def)
  have s5: "?s5 = loaded_db to_float users products orders items payments"
    by (simp add: loaded_db_def empty_db_def)
  from ords have totals: "\<forall>ord \<in> set orders. storable (total_amount ord)" by blast
  from its have units: "\<forall>it \<in> set items. storable (unit_price it)" by blast
  from pays have amounts: "\<forall>p \<in> set payments. storable (amount p)" by blast
  have l1: "load_users dir ''users.csv'' = Inr (map Inr ?U)"
    by (simp add: load_users_rows[where dir = dir and path = "''users.csv''", OF dir(1)])
  have l2: "load_products to_float dir ''products.csv'' = Inr (map Inr ?P)"
    by (simp add: load_products_rows[where dir = dir and path = "''products.csv''", OF dir(2) f prices])
  have l3: "load_orders to_float dir ''orders.csv'' = Inr (map Inr ?O)"
    by (simp add: load_orders_rows[where dir = dir and path = "''orders.csv''", OF dir(3) f totals])
  have l4: "load_order_items to_float dir ''order_items.csv'' = Inr (map Inr ?I)"
    by (simp add: load_order_items_rows[where dir = dir and path = "''order_items.csv''", OF dir(4) f units])
  have l5: "load_payments to_float dir ''payments.csv'' = Inr (map Inr ?Y)"
    by (simp add: load_payments_rows[where dir = dir and path = "''payments.csv''", OF dir(5) f amounts])
  show ?thesis
    unfolding load_all_def l1 l2 l3 l4 l5 executemany_def
    by (simp add: c 1 2 3 4 5 s5 del: insert_rows.simps map_map list.map_comp)
qed

lemma ingest_generated:
  assumes gen: "generate a now1 now2 g = Inr (users, products, orders, items, payments)"
    and f: "float_contract to_float"
  shows "ingest_main to_float (exported (snd (generate_data_main a now1 now2 g d))) store
     = (Inr (count_lines (loaded_db to_float users products orders items payments)),
        Some (loaded_db to_float users products orders items payments))"
proof -
  from exported_generated[OF gen, of d] obtain dir where
    e: "exported (snd (generate_data_main a now1 now2 g d)) = Some dir"
    and dir: "dir ''users.csv'' = Some (map user_row users)"
      "dir ''products.csv'' = Some (map product_row products)"
      "dir ''orders.csv'' = Some (map order_row orders)"
      "dir ''order_items.csv'' = Some (map order_item_row items)"
      "dir ''payments.csv'' = Some (map payment_row payments)"
    by blast
  let ?s0 = "case store of None \<Rightarrow> empty_db | Some s \<Rightarrow> s"
  let ?c0 = "clear_tables (ensure_tables \<lparr>on_disk = ?s0, working = ?s0\<rparr>)"
  have "load_all to_float dir ?c0
     = Inr (?c0\<lparr>working := loaded_db to_float users products orders items payments\<rparr>)"
    using gen f dir cleared_working by (rule load_all_generated)
  then show ?thesis
    unfolding e by (simp add: ingest_main_def Let_def commit_def)
qed

subsection \<open>The join on a loaded dataset\<close>

lemma concat_map_no_match:
  assumes "\<forall>x \<in> set xs. key x \<noteq> k"
  shows "concat (map (\<lambda>x. if k = key x then F x else []) xs) = []"
  using assms by (induction xs) auto

lemma concat_map_unique:
  assumes "distinct (map key xs)" "y \<in> set xs"
  shows "concat (map (\<lambda>x. if key y = key x then F x else []) xs) = F y"
  using assms
proof (induction xs)
  case Nil
  then show ?case by simp
next
  case (Cons x xs)
  show ?case
  proof (cases "y = x")
    case True
    from Cons.prems(1) have "key x \<notin> key ` set xs" by simp
    then have "\<forall>x' \<in> set xs. key x' \<noteq> key x" by (metis image_eqI)
    then have "concat (map (\<lambda>x'. if key x = key x' then F x' else []) xs) = []"
      by (rule concat_map_no_match)
    with True show ?thesis by simp
  next
    case False
    with Cons.prems have y: "y \<in> set xs" and d: "distinct (map key xs)" by simp_all
    from Cons.prems(1) have "key x \<notin> key ` set xs" by simp
    with y have "key y \<noteq> key x" by (metis image_eqI)
    with Cons.IH[OF d y] show ?thesis by simp
  qed
qed

lemma find_unique:
  assumes "distinct (map key xs)" "y \<in> set xs"
  shows "find (\<lambda>x. key x = key y) xs = Some y"
  using assms by (induction xs) auto

lemma find_filter_single:
  assumes "filter P xs = [y]"
  shows "find P xs = Some y"
  using assms by (induction xs) (auto split: if_splits)

lemma filter_concat_select:
  assumes "\<And>x. x \<in> set xs \<Longrightarrow> filter P (H x) = (if Q x then [f x] else [])"
  shows "filter P (concat (map H xs)) = map f (filter Q xs)"
  using assms by (induction xs) auto

lemma sorted_keyed:
  assumes "sorted (map f xs)"
  shows "sorted (map (\<lambda>x. (a, b, f x)) xs)"
  using assms by (induction xs) auto

lemma payment_columns_single:
  assumes "filter (\<lambda>p. pay_order_id p = oid) payments = [pay]"
  shows "payment_columns (map (payment_tuple to_float) payments) oid = [(status pay, pay_method pay)]"
proof -
  have "filter (\<lambda>(pay_id, pay_oid, am, me, st, pa). pay_oid = oid) (map (payment_tuple to_float) payments)
      = map (payment_tuple to_float) (filter (\<lambda>p. pay_order_id p = oid) payments)"
    by (simp add: filter_map comp_def payment_tuple_def)
  then show ?thesis
    by (simp add: payment_columns_def assms payment_tuple_def del: map_map)
qed

lemma report_rows_loaded:
  assumes dU: "distinct (map user_id users)" and dP: "distinct (map product_id products)"
    and dO: "distinct (map order_id orders)"
    and ords: "\<forall>ord \<in> set orders. o_user_id ord \<in> user_id ` set users \<and> storable (total_amount ord)"
    and its: "\<forall>it \<in> set items. oi_product_id it \<in> product_id ` set products
           \<and> oi_order_id it \<in> order_id ` set orders \<and> storable (unit_price it)"
    and srt: "sorted (map order_item_id items)"
    and pays: "\<forall>ord \<in> set orders. \<exists>p. payments_of ord payments = [p]"
    and f: "float_contract to_float" and pc: "printf_contract printf2"
    and ord: "ord \<in> set orders"
  shows "report_rows_of ord (fetch_report printf2 (loaded_db to_float users products orders items payments))
     = order_rows users products payments ord (items_of ord items)"
proof -
  define row where "row it od u p st me =
     [CInt (user_id u), CText (name u), CInt (order_id od), CText (p_name p), CInt (quantity it),
      CText (printf2 (the (to_float (unit_price it)))),
      CText (printf2 (the (to_float (total_amount od)))), CText st, CText me]"
    for it :: OrderItem and od :: Order and u :: User and p :: Product and st me
  define G3 where "G3 it od u p =
     map (\<lambda>(st, me). ((user_id u, order_id od, order_item_id it), row it od u p st me))
       (payment_columns (map (payment_tuple to_float) payments) (order_id od))"
    for it od u p
  define G2 where "G2 it od u =
     concat (map (\<lambda>p. if oi_product_id it = product_id p then G3 it od u p else []) products)"
    for it od u
  define G1 where "G1 it od =
     concat (map (\<lambda>u. if o_user_id od = user_id u then G2 it od u else []) users)"
    for it od
  define G where "G it =
     concat (map (\<lambda>od. if oi_order_id it = order_id od then G1 it od else []) orders)"
    for it
  have L: "fetch_report printf2 (loaded_db to_float users products orders items payments)
      = map snd (sort_key fst (concat (map G items)))"
    unfolding G_def G1_def G2_def G3_def row_def
    by (simp add: fetch_report_def loaded_db_def order_item_tuple_def order_tuple_def
        user_tuple_def product_tuple_def comp_def cong: if_cong)
  have G_it: "G it = [((o_user_id od, order_id od, order_item_id it),
                       report_row users products payments od it)]"
    if it: "it \<in> set items" and od: "od \<in> set orders" and oid: "oi_order_id it = order_id od"
    for it od
  proof -
    from ords od obtain u where u: "u \<in> set users" "o_user_id od = user_id u"
      and tot: "storable (total_amount od)" by auto
    from its it obtain p where p: "p \<in> set products" "oi_product_id it = product_id p"
      and unit: "storable (unit_price it)" by auto
    from pays od obtain pay where pay: "filter (\<lambda>p. pay_order_id p = order_id od) payments = [pay]"
      by (auto simp: payments_of_def)
    have 1: "G it = G1 it od"
      unfolding G_def oid by (rule concat_map_unique[OF dO od])
    have 2: "G1 it od = G2 it od u"
      unfolding G1_def u(2) by (rule concat_map_unique[OF dU u(1)])
    have 3: "G2 it od u = G3 it od u p"
      unfolding G2_def p(2) by (rule concat_map_unique[OF dP p(1)])
    have 4: "G3 it od u p = [((user_id u, order_id od, order_item_id it),
        row it od u p (status pay) (pay_method pay))]"
      unfolding G3_def by (simp add: payment_columns_single[OF pay])
    have fu: "find (\<lambda>x. user_id x = o_user_id od) users = Some u"
      unfolding u(2) by (rule find_unique[OF dU u(1)])
    have fp: "find (\<lambda>x. product_id x = oi_product_id it) products = Some p"
      unfolding p(2) by (rule find_unique[OF dP p(1)])
    have fy: "find (\<lambda>p. pay_order_id p = order_id od) payments = Some pay"
      by (rule find_filter_single[OF pay])
    have "row it od u p (status pay) (pay_method pay) = report_row users products payments od it"
      unfolding row_def report_row_def
      by (simp add: fu fp fy u(2) find_unique[OF dU u(1)] the_float_round_trip(2)[OF f pc unit]
          the_float_round_trip(2)[OF f pc tot])
    with 1 2 3 4 u(2) show ?thesis by simp
  qed
  let ?P = "\<lambda>r :: cell list. r ! 2 = CInt (order_id ord)"
  let ?F = "\<lambda>it. ((o_user_id ord, order_id ord, order_item_id it),
                   report_row users products payments ord it)"
  have sel: "filter (?P \<circ> snd) (G it) = (if oi_order_id it = order_id ord then [?F it] else [])"
    if it: "it \<in> set items" for it
  proof -
    from its it obtain od where od: "od \<in> set orders" "oi_order_id it = order_id od" by auto
    show ?thesis
    proof (cases "oi_order_id it = order_id ord")
      case True
      with od(2) have "order_id od = order_id ord" by simp
      with dO od(1) ord have "od = ord" by (auto simp: distinct_map inj_on_def)
      with G_it[OF it od] True show ?thesis by (simp add: report_row_def)
    next
      case False
      with od(2) have "order_id od \<noteq> order_id ord" by simp
      with G_it[OF it od] False show ?thesis by (simp add: report_row_def)
    qed
  qed
  have "filter (?P \<circ> snd) (concat (map G items)) = map ?F (filter (\<lambda>it. oi_order_id it = order_id ord) items)"
    by (rule filter_concat_select) (rule sel)
  then have sel_all: "filter (?P \<circ> snd) (concat (map G items)) = map ?F (items_of ord items)"
    by (simp only: items_of_def)
  have "sorted (map order_item_id (items_of ord items))"
    unfolding items_of_def by (rule sorted_filter[OF srt])
  then have "sorted (map (\<lambda>it. (o_user_id ord, order_id ord, order_item_id it)) (items_of ord items))"
    by (rule sorted_keyed)
  then have "sorted (map fst (map ?F (items_of ord items)))" by (simp add: comp_def)
  then have srt': "sort_key fst (map ?F (items_of ord items)) = map ?F (items_of ord items)"
    by (rule sort_key_id_if_sorted)
  have "report_rows_of ord (fetch_report printf2 (loaded_db to_float users products orders items payments))
      = map snd (filter (?P \<circ> snd) (sort_key fst (concat (map G items))))"
    unfolding L report_rows_of_def by (simp only: filter_map)
  also have "\<dots> = map snd (sort_key fst (filter (?P \<circ> snd) (concat (map G items))))"
    by (simp only: filter_sort)
  also have "\<dots> = map snd (map ?F (items_of ord items))"
    by (simp only: sel_all srt')
  also have "\<dots> = order_rows users products payments ord (items_of ord items)"
    by (simp add: order_rows_def comp_def)
  finally show ?thesis .
qed

subsection \<open>The round trip\<close>

text \<open>
  C2. For every generated dataset, whatever the counts, the clock and the random draws:
  the loader, run on the files that the generator's \<open>main\<close> wrote, succeeds on any store,
  and in the report fetched from the store it leaves, the rows of every generated order are
  the rows of that order's generated items, in their order, each with the generated
  quantity, the generated unit price text and the generated total text. \<open>float()\<close> and
  \<open>printf('%.2f')\<close> are any functions within their documented accuracy.
\<close>

theorem report_reproduces_generated_orders:
  assumes "generate a now1 now2 g = Inr (users, products, orders, items, payments)"
    and "float_contract to_float" and "printf_contract printf2"
  shows "\<exists>lines store'.
      ingest_main to_float (exported (snd (generate_data_main a now1 now2 g d))) store
        = (Inr lines, Some store')
    \<and> (\<forall>ord \<in> set orders.
          report_rows_of ord (fetch_report printf2 store')
            = order_rows users products payments ord (items_of ord items))"
proof -
  let ?db = "loaded_db to_float users products orders items payments"
  have load: "ingest_main to_float (exported (snd (generate_data_main a now1 now2 g d))) store
      = (Inr (count_lines ?db), Some ?db)"
    by (rule ingest_generated[OF assms(1,2)])
  from generate_structure[OF assms(1)] have
    uids: "map user_id users = [1..users_arg a]"
    and pids: "map product_id products = [1..products_arg a]"
    and oids: "map order_id orders = [1..orders_arg a]"
    by blast+
  from generate_fields[OF assms(1)] have
    ords: "\<forall>ord \<in> set orders. o_user_id ord \<in> user_id ` set users \<and> storable (total_amount ord)"
    and its: "\<forall>it \<in> set items. oi_product_id it \<in> product_id ` set products
           \<and> oi_order_id it \<in> order_id ` set orders \<and> storable (unit_price it)"
    and iids: "map order_item_id items = [1 .. int (length items)]"
    by blast+
  have dU: "distinct (map user_id users)" unfolding uids by simp
  have dP: "distinct (map product_id products)" unfolding pids by simp
  have dO: "distinct (map order_id orders)" unfolding oids by simp
  have srt: "sorted (map order_item_id items)" unfolding iids by simp
  have pays: "\<forall>ord \<in> set orders. \<exists>p. payments_of ord payments = [p]"
    using generate_payment_ok[OF assms(1)] by blast
  have rows: "\<forall>ord \<in> set orders.
      report_rows_of ord (fetch_report printf2 ?db)
        = order_rows users products payments ord (items_of ord items)"
  proof
    fix ord assume "ord \<in> set orders"
    with dU dP dO ords its srt pays assms(2,3)
    show "report_rows_of ord (fetch_report printf2 ?db)
        = order_rows users products payments ord (items_of ord items)"
      by (rule report_rows_loaded)
  qed
  from load rows show ?thesis by blast
qed

theorem report_reproduces_generated_orders_witness:
  "\<exists>lines store'.
      ingest_main inexact_float
        (exported (snd (generate_data_main example_args (days 20000) (days 20000)
           (draws_from example_draws) no_output))) None
        = (Inr lines, Some store')
    \<and> report_rows_of
        \<lparr>order_id = 1, o_user_id = 1, order_date = Date_Text 19880, total_amount = ''1112.50''\<rparr>
        (fetch_report money store')
        = [[CInt 1, CText ''Ava Chen'', CInt 1, CText ''Breeze Water Bottle'', CInt 3,
            CText ''167.50'', CText ''1112.50'', CText ''Pending'', CText ''PayPal''],
           [CInt 1, CText ''Ava Chen'', CInt 1, CText ''Summit Laptop'', CInt 1,
            CText ''610.00'', CText ''1112.50'', CText ''Pending'', CText ''PayPal'']]
    \<and> report_rows_of
        \<lparr>order_id = 2, o_user_id = 1, order_date = Date_Text 19880, total_amount = ''1220.00''\<rparr>
        (fetch_report money store')
        = [[CInt 1, CText ''Ava Chen'', CInt 2, CText ''Summit Laptop'', CInt 2,
            CText ''610.00'', CText ''1220.00'', CText ''Completed'', CText ''Credit Card'']]"
proof -
  let ?o1 = "\<lparr>order_id = 1, o_user_id = 1, order_date = Date_Text 19880,
               total_amount = ''1112.50''\<rparr>"
  let ?o2 = "\<lparr>order_id = 2, o_user_id = 1, order_date = Date_Text 19880,
               total_amount = ''1220.00''\<rparr>"
  from report_reproduces_generated_orders[OF example_run inexact_float_contract
      money_printf_contract, of no_output None]
  obtain lines store' where
    load: "ingest_main inexact_float
        (exported (snd (generate_data_main example_args (days 20000) (days 20000)
           (draws_from example_draws) no_output))) None
        = (Inr lines, Some store')"
    and rows: "\<forall>ord \<in> set example_orders.
          report_rows_of ord (fetch_report money store')
            = order_rows example_users example_products example_payments ord
                (items_of ord example_items)"
    by blast
  have "?o1 \<in> set example_orders" "?o2 \<in> set example_orders"
    by (simp_all add: example_orders_def)
  with rows have
    r1: "report_rows_of ?o1 (fetch_report money store')
       = order_rows example_users example_products example_payments ?o1
           (items_of ?o1 example_items)"
    and r2: "report_rows_of ?o2 (fetch_report money store')
       = order_rows example_users example_products example_payments ?o2
           (items_of ?o2 example_items)"
    by blast+
  have e1: "order_rows example_users example_products example_payments ?o1
           (items_of ?o1 example_items)
        = [[CInt 1, CText ''Ava Chen'', CInt 1, CText ''Breeze Water Bottle'', CInt 3,
            CText ''167.50'', CText ''1112.50'', CText ''Pending'', CText ''PayPal''],
           [CInt 1, CText ''Ava Chen'', CInt 1, CText ''Summit Laptop'', CInt 1,
            CText ''610.00'', CText ''1112.50'', CText ''Pending'', CText ''PayPal'']]"
    by (simp add: order_rows_def report_row_def items_of_def example_users_def
        example_products_def example_items_def example_payments_def)
  have e2: "order_rows example_users example_products example_payments ?o2
           (items_of ?o2 example_items)
        = [[CInt 1, CText ''Ava Chen'', CInt 2, CText ''Summit Laptop'', CInt 2,
            CText ''610.00'', CText ''1220.00'', CText ''Completed'', CText ''Credit Card'']]"
    by (simp add: order_rows_def report_row_def items_of_def example_users_def
        example_products_def example_items_def example_payments_def)
  from load r1 r2 show ?thesis unfolding e1 e2 by blast
qed

end
